theory Spec2Isabelle
  imports Complex_Main
begin

section \<open>The RabbitMQ service (rabbitmq.service.ts)\<close>

subsection \<open>Data\<close>

text \<open>
  Correlation ids (the strings returned by \<open>uuidv4()\<close>), queue names and JSON
  payloads are strings. A payload stands for a parsed JSON value.
\<close>

type_synonym cid = string
type_synonym queue = string
type_synonym json = string

text \<open>
  Thrown values: \<open>new Error(msg)\<close> (also the errors of the broker library),
  a \<open>TypeError\<close> of the runtime, and Nest's \<open>HttpException(message, status)\<close>.
\<close>

datatype error = Error string | TypeError string | HttpException string nat

text \<open>
  A delivered message. \<open>correlationId\<close> is \<open>msg.properties.correlationId\<close>
  (absent on messages published without one). \<open>content\<close> is the value of
  \<open>JSON.parse(msg.content.toString())\<close>: \<open>None\<close> where the parse throws.
\<close>

record amqp_msg =
  correlationId :: "cid option"
  content :: "json option"

datatype queue_options = Durable | Exclusive_AutoDelete

text \<open>The requests the service issues on its connection and channel, in order.\<close>

datatype chan_op =
    AssertExchange string string
  | AssertQueue queue queue_options
  | BindQueue queue string string
  | Consume queue bool
  | Publish string string json "cid option" "queue option"
  | DeleteQueue queue
  | Ack amqp_msg
  | Nack amqp_msg bool bool
  | ChannelClose
  | ConnectionClose

text \<open>
  A JavaScript number: a finite double, taken as the real number it denotes, or one of the
  three values that are not finite.
\<close>

datatype js_number = Num real | NaN | PlusInfinity | MinusInfinity

text \<open>
  A \<open>setTimeout\<close> handle of the runtime: it fires at most once, and not at all
  once \<open>clearTimeout\<close> has been applied to it. \<open>delay\<close> is the number of
  milliseconds the runtime arms it with.
\<close>

datatype timer_status = Armed | Cleared | Fired

record timer_rec =
  delay :: int
  fate :: timer_status

text \<open>A promise of the runtime: settled at most once, the first settlement wins.\<close>

datatype promise = Pending | Resolved json | Rejected error

text \<open>
  An entry of the \<open>responseEmitter\<close> map: the \<open>resolve\<close> and \<open>reject\<close>
  functions of a response promise and the timer handle. Each call creates one promise and
  one timer; both are named by the call's correlation id, which \<open>uuidv4\<close> is taken
  to return fresh.
\<close>

record entry =
  resolve :: cid
  reject :: cid
  timer :: cid

text \<open>
  The callback registered with \<open>channel.consume\<close>: the reply callback of
  \<open>publishWithResponse\<close> (a closure over the correlation id) or the callback of
  \<open>subscribe\<close> (a closure over the queue name and the handler). A handler is given
  by what it does on a decoded message: the lines it writes to the logger, and its outcome,
  \<open>None\<close> when it completes and the error it raises otherwise.
\<close>

type_synonym handler = "json \<Rightarrow> amqp_msg \<Rightarrow> string list \<times> error option"

datatype consumer =
    Reply cid
  | Subscription queue handler

text \<open>
  The service object with the part of the runtime it uses. \<open>connection\<close> and
  \<open>channel\<close> are \<open>None\<close> while the fields are undefined. \<open>settlements\<close>
  records every invocation of a promise's \<open>resolve\<close> or \<open>reject\<close>, whether or not
  the promise was still pending. \<open>logs\<close> are the messages given to the logger.
\<close>

record service =
  connection :: "nat option"
  channel :: "nat option"
  responseEmitter :: "cid \<rightharpoonup> entry"
  timers :: "cid \<rightharpoonup> timer_rec"
  promises :: "cid \<rightharpoonup> promise"
  consumers :: "queue \<rightharpoonup> consumer"
  oplog :: "chan_op list"
  settlements :: "(cid \<times> promise) list"
  logs :: "string list"
  retries_scheduled :: nat

definition initial :: service where
  "initial = \<lparr>connection = None, channel = None, responseEmitter = Map.empty,
     timers = Map.empty, promises = Map.empty, consumers = Map.empty, oplog = [],
     settlements = [], logs = [], retries_scheduled = 0\<rparr>"

subsection \<open>Runtime primitives\<close>

definition request :: "chan_op \<Rightarrow> service \<Rightarrow> service" where
  "request op s = s\<lparr>oplog := oplog s @ [op]\<rparr>"

definition log_msg :: "string \<Rightarrow> service \<Rightarrow> service" where
  "log_msg m s = s\<lparr>logs := logs s @ [m]\<rparr>"

definition settle :: "cid \<Rightarrow> promise \<Rightarrow> service \<Rightarrow> service" where
  "settle p v s =
     s\<lparr>settlements := settlements s @ [(p, v)],
       promises := (if promises s p = Some Pending then (promises s)(p \<mapsto> v)
                    else promises s)\<rparr>"

text \<open>
  The delay the runtime arms a timer with: Node replaces a delay that is not between 1 and
  2147483647 (so also NaN and the infinities) by 1, and counts whole milliseconds.
\<close>

definition timer_delay :: "js_number \<Rightarrow> int" where
  "timer_delay after =
     (case after of
        Num x \<Rightarrow> if 1 \<le> x \<and> x \<le> 2147483647 then \<lfloor>x\<rfloor> else 1
      | NaN \<Rightarrow> 1
      | PlusInfinity \<Rightarrow> 1
      | MinusInfinity \<Rightarrow> 1)"

definition setTimeout :: "cid \<Rightarrow> js_number \<Rightarrow> service \<Rightarrow> service" where
  "setTimeout h after s =
     s\<lparr>timers := (timers s)(h \<mapsto> \<lparr>delay = timer_delay after, fate = Armed\<rparr>)\<rparr>"

definition log_lines :: "string list \<Rightarrow> service \<Rightarrow> service" where
  "log_lines ls s = s\<lparr>logs := logs s @ ls\<rparr>"

definition clearTimeout :: "cid \<Rightarrow> service \<Rightarrow> service" where
  "clearTimeout h s =
     (case timers s h of
        None \<Rightarrow> s
      | Some t \<Rightarrow> if fate t = Armed
                  then s\<lparr>timers := (timers s)(h \<mapsto> t\<lparr>fate := Cleared\<rparr>)\<rparr>
                  else s)"

subsection \<open>publishWithResponse\<close>

definition replyTo_of :: "cid \<Rightarrow> queue" where
  "replyTo_of c = ''response.'' @ c"

text \<open>
  \<open>this.channel.deleteQueue(queue).catch((err) => this.logger.error(...))\<close>: the
  request, and the log line when the deletion fails.
\<close>

definition deleteQueue_logged :: "queue \<Rightarrow> error option \<Rightarrow> service \<Rightarrow> service" where
  "deleteQueue_logged q derr s =
     (let s1 = request (DeleteQueue q) s
      in (case derr of None \<Rightarrow> s1 | Some e \<Rightarrow> log_msg ''Error deleting queue'' s1))"

text \<open>The body of the timer callback (lines 137-143).\<close>

definition timeout_callback :: "cid \<Rightarrow> error option \<Rightarrow> service \<Rightarrow> service" where
  "timeout_callback c derr s =
     (let s1 = s\<lparr>responseEmitter := (responseEmitter s)(c := None)\<rparr>;
          s2 = deleteQueue_logged (replyTo_of c) derr s1
      in settle c (Rejected (Error ''Request timeout'')) s2)"

text \<open>The runtime fires an armed timer once; any other handle does nothing.\<close>

definition fire_timer :: "cid \<Rightarrow> error option \<Rightarrow> service \<Rightarrow> service" where
  "fire_timer h derr s =
     (case timers s h of
        None \<Rightarrow> s
      | Some t \<Rightarrow> if fate t = Armed
                  then timeout_callback h derr (s\<lparr>timers := (timers s)(h \<mapsto> t\<lparr>fate := Fired\<rparr>)\<rparr>)
                  else s)"

text \<open>
  The reply callback (lines 151-168) of the call with correlation id \<open>c\<close>, applied to
  a delivery \<open>msg\<close> (\<open>None\<close> is the null delivery). Where \<open>JSON.parse\<close> throws,
  the exception leaves the callback and nothing of the service has changed.
\<close>

definition reply_callback :: "cid \<Rightarrow> amqp_msg option \<Rightarrow> error option \<Rightarrow> service \<Rightarrow> service" where
  "reply_callback c msg derr s =
     (case msg of
        None \<Rightarrow> s
      | Some m \<Rightarrow>
          if correlationId m = Some c then
            (case content m of
               None \<Rightarrow> s
             | Some response \<Rightarrow>
                 let s1 = (case responseEmitter s c of
                             Some emitterData \<Rightarrow>
                               settle c (Resolved response)
                                 ((clearTimeout (timer emitterData) s)
                                    \<lparr>responseEmitter := (responseEmitter s)(c := None)\<rparr>)
                           | None \<Rightarrow> s)
                 in deleteQueue_logged (replyTo_of c) derr s1)
          else s)"

text \<open>
  What the environment decides during one call: the id \<open>uuidv4()\<close> returns and whether
  each channel operation fails. \<open>consume_err\<close> is the rejection of the promise that
  \<open>channel.consume\<close> returns, which the code drops.
\<close>

record call_env =
  uuid :: cid
  assertQueue_err :: "error option"
  consume_err :: "error option"
  publish_err :: "error option"
  deleteQueue_err :: "error option"

text \<open>The catch block (lines 185-189): the deletion error is discarded.\<close>

definition catch_block :: "cid \<Rightarrow> error \<Rightarrow> service \<Rightarrow> (error + cid) \<times> service" where
  "catch_block c e s =
     (let s1 = s\<lparr>responseEmitter := (responseEmitter s)(c := None)\<rparr>
      in (Inl e, request (DeleteQueue (replyTo_of c)) s1))"

text \<open>The default value of the parameter \<open>timeout\<close> (line 120).\<close>

definition timeout_or_default :: "js_number option \<Rightarrow> js_number" where
  "timeout_or_default t = (case t of None \<Rightarrow> Num 30000 | Some v \<Rightarrow> v)"

text \<open>
  \<open>publishWithResponse(exchange, routingKey, message, timeout)\<close>. The result is
  \<open>Inl e\<close> when the call throws \<open>e\<close>, and \<open>Inr p\<close> when it returns the response
  promise \<open>p\<close>, whose state the caller then observes. The queue name the broker returns
  from \<open>assertQueue\<close> is the name asked for.
\<close>

definition publishWithResponse ::
  "call_env \<Rightarrow> string \<Rightarrow> string \<Rightarrow> json \<Rightarrow> js_number option \<Rightarrow> service \<Rightarrow> (error + cid) \<times> service" where
  "publishWithResponse env exchange routingKey msg timeout s =
     (case channel s of
        None \<Rightarrow> (Inl (Error ''Channel not initialized''), s)
      | Some ch \<Rightarrow>
          let c = uuid env;
              replyTo = replyTo_of c;
              s1 = request (AssertQueue replyTo Exclusive_AutoDelete) s
          in (case assertQueue_err env of
                Some e \<Rightarrow> catch_block c e s1
              | None \<Rightarrow>
                  (let s2 = s1\<lparr>promises := (promises s1)(c \<mapsto> Pending)\<rparr>;
                       s3 = setTimeout c (timeout_or_default timeout) s2;
                       s4 = s3\<lparr>responseEmitter := (responseEmitter s3)(c \<mapsto>
                              \<lparr>resolve = c, reject = c, timer = c\<rparr>)\<rparr>;
                       s5 = request (Consume replyTo True) s4;
                       s6 = (case consume_err env of
                               None \<Rightarrow> s5\<lparr>consumers := (consumers s5)(replyTo \<mapsto> Reply c)\<rparr>
                             | Some e \<Rightarrow> s5);
                       s7 = request (Publish exchange routingKey msg (Some c) (Some replyTo)) s6
                   in (case publish_err env of
                         Some e \<Rightarrow> catch_block c e s7
                       | None \<Rightarrow> (Inr c, s7)))))"

text \<open>What the caller of a call sees in state \<open>s\<close>.\<close>

definition outcome :: "(error + cid) \<Rightarrow> service \<Rightarrow> promise" where
  "outcome r s =
     (case r of
        Inl e \<Rightarrow> Rejected e
      | Inr p \<Rightarrow> (case promises s p of None \<Rightarrow> Pending | Some v \<Rightarrow> v))"

subsection \<open>publish and subscribe\<close>

text \<open>
  \<open>publish(exchange, routingKey, message)\<close>: the error is logged and thrown again.
  With the channel undefined the member access throws a \<open>TypeError\<close> inside the
  \<open>try\<close>.
\<close>

definition publish :: "error option \<Rightarrow> string \<Rightarrow> string \<Rightarrow> json \<Rightarrow> service \<Rightarrow> error option \<times> service" where
  "publish err exchange routingKey msg s =
     (case channel s of
        None \<Rightarrow>
          (Some (TypeError ''Cannot read properties of undefined (reading 'publish')''),
           log_msg (''Failed to publish message to '' @ exchange) s)
      | Some ch \<Rightarrow>
          (let s1 = request (Publish exchange routingKey msg None None) s
           in (case err of
                 Some e \<Rightarrow> (Some e, log_msg (''Failed to publish message to '' @ exchange) s1)
               | None \<Rightarrow> (None, s1))))"

text \<open>
  The callback that \<open>subscribe\<close> registers (lines 214-226), applied to one delivery.
  \<open>cerr\<close> is the error the channel throws on \<open>ack\<close> and \<open>nack\<close> (a channel
  that has closed meanwhile), if any; a request is recorded when it is made, also when the
  channel refuses it. When \<open>ack\<close> throws, the catch block runs. On the null delivery
  \<open>msg.content\<close> throws, and so does \<open>nack\<close> in the catch block, before any
  request is made.
\<close>

definition on_message ::
  "queue \<Rightarrow> handler \<Rightarrow> amqp_msg option \<Rightarrow> error option \<Rightarrow> service \<Rightarrow> service" where
  "on_message q callback msg cerr s =
     (case msg of
        None \<Rightarrow> log_msg (''Error processing message from queue '' @ q) s
      | Some m \<Rightarrow>
          (case content m of
             None \<Rightarrow>
               request (Nack m False False)
                 (log_msg (''Error processing message from queue '' @ q) s)
           | Some decoded \<Rightarrow>
               (case callback decoded m of
                  (ls, None) \<Rightarrow>
                    (let s1 = request (Ack m) (log_lines ls s)
                     in (case cerr of
                           None \<Rightarrow> s1
                         | Some e \<Rightarrow>
                             request (Nack m False False)
                               (log_msg (''Error processing message from queue '' @ q) s1)))
                | (ls, Some e) \<Rightarrow>
                    request (Nack m False False)
                      (log_msg (''Error processing message from queue '' @ q) (log_lines ls s)))))"

definition subscribe ::
  "error option \<Rightarrow> queue \<Rightarrow> handler \<Rightarrow> service \<Rightarrow> error option \<times> service" where
  "subscribe err q callback s =
     (case channel s of
        None \<Rightarrow>
          (Some (TypeError ''Cannot read properties of undefined (reading 'consume')''),
           log_msg (''Failed to subscribe to queue '' @ q) s)
      | Some ch \<Rightarrow>
          (let s1 = request (Consume q False) s
           in (case err of
                 Some e \<Rightarrow> (Some e, log_msg (''Failed to subscribe to queue '' @ q) s1)
               | None \<Rightarrow> (None, s1\<lparr>consumers := (consumers s1)(q \<mapsto> Subscription q callback)\<rparr>))))"

text \<open>
  The handler of \<open>setupSubscriptions\<close> writes an info line with the event and
  completes.
\<close>

definition stock_update_handler :: handler where
  "stock_update_handler event m = ([''Received stock update event: '' @ event], None)"

definition setupSubscriptions :: "error option \<Rightarrow> service \<Rightarrow> error option \<times> service" where
  "setupSubscriptions err s = subscribe err ''inventory.updates'' stock_update_handler s"

subsection \<open>Connection management\<close>

text \<open>
  What the broker answers to one \<open>connect()\<close>: the connection attempt fails; or the
  connection \<open>cn\<close> is made and \<open>createChannel\<close> fails; or the channel \<open>ch\<close> is made and
  the declaration after the first \<open>k\<close> ones fails; or all of it succeeds.
\<close>

datatype connect_env =
    ConnectFails error
  | ChannelFails nat error
  | DeclareFails nat nat nat error
  | ConnectOk nat nat

definition topology :: "chan_op list" where
  "topology =
     [AssertExchange ''inventory.exchange'' ''topic'',
      AssertExchange ''order.exchange'' ''topic'',
      AssertQueue ''order.stock.check'' Durable,
      AssertQueue ''order.stock.deduct'' Durable,
      AssertQueue ''inventory.updates'' Durable,
      BindQueue ''inventory.updates'' ''inventory.exchange'' ''inventory.stock.*'']"

fun connect :: "connect_env \<Rightarrow> service \<Rightarrow> error option \<times> service" where
  "connect (ConnectFails e) s = (Some e, log_msg ''Failed to connect to RabbitMQ'' s)"
| "connect (ChannelFails cn e) s =
     (Some e, log_msg ''Failed to connect to RabbitMQ'' (s\<lparr>connection := Some cn\<rparr>))"
| "connect (DeclareFails cn ch k e) s =
     (Some e, log_msg ''Failed to connect to RabbitMQ''
        (s\<lparr>connection := Some cn, channel := Some ch,
           oplog := oplog s @ take (Suc k) topology\<rparr>))"
| "connect (ConnectOk cn ch) s =
     (None, s\<lparr>connection := Some cn, channel := Some ch, oplog := oplog s @ topology\<rparr>)"

record cleanup_env =
  channel_close_err :: "error option"
  connection_close_err :: "error option"

definition cleanup :: "cleanup_env \<Rightarrow> service \<Rightarrow> service" where
  "cleanup env s =
     (let s1 = (case channel s of None \<Rightarrow> s | Some ch \<Rightarrow> request ChannelClose s)
      in if channel s \<noteq> None \<and> channel_close_err env \<noteq> None
         then log_msg ''Error during cleanup'' s1
         else (case connection s1 of
                 None \<Rightarrow> s1
               | Some cn \<Rightarrow>
                   (let s2 = request ConnectionClose s1
                    in if connection_close_err env \<noteq> None
                       then log_msg ''Error during cleanup'' s2
                       else s2)))"

definition onModuleInit :: "connect_env \<Rightarrow> error option \<Rightarrow> service \<Rightarrow> error option \<times> service" where
  "onModuleInit cenv serr s =
     (case connect cenv s of
        (Some e, s1) \<Rightarrow> (Some e, s1)
      | (None, s1) \<Rightarrow> setupSubscriptions serr s1)"

text \<open>
  One run of \<open>reconnect()\<close>. On failure it logs and schedules itself again after 5000 ms;
  the scheduled run is a later event.
\<close>

record attempt =
  att_cleanup :: cleanup_env
  att_connect :: connect_env
  att_subscribe :: "error option"

definition reconnect_failed :: "service \<Rightarrow> service" where
  "reconnect_failed s =
     (log_msg ''Failed to reconnect to RabbitMQ'' s)\<lparr>retries_scheduled := Suc (retries_scheduled s)\<rparr>"

definition reconnect :: "attempt \<Rightarrow> service \<Rightarrow> service" where
  "reconnect att s =
     (let s1 = cleanup (att_cleanup att) s
      in (case connect (att_connect att) s1 of
            (Some e, s2) \<Rightarrow> reconnect_failed s2
          | (None, s2) \<Rightarrow>
              (case setupSubscriptions (att_subscribe att) s2 of
                 (Some e, s3) \<Rightarrow> reconnect_failed s3
               | (None, s3) \<Rightarrow> s3)))"

text \<open>The \<open>close\<close> handler installed by \<open>setupErrorHandlers\<close> (lines 84-89).\<close>

definition on_close :: "attempt \<Rightarrow> service \<Rightarrow> service" where
  "on_close att s =
     reconnect att (log_msg ''RabbitMQ Connection Closed. Attempting to reconnect...'' s)"

definition fire_retry :: "attempt \<Rightarrow> service \<Rightarrow> service" where
  "fire_retry att s =
     (case retries_scheduled s of
        0 \<Rightarrow> s
      | Suc n \<Rightarrow> reconnect att (s\<lparr>retries_scheduled := n\<rparr>))"

subsection \<open>Runs of the service\<close>

text \<open>
  What can happen to the service, one event at a time: the lifecycle hooks, a call of
  \<open>publishWithResponse\<close> or \<open>publish\<close>, the delivery of a message (or of null) to the
  consumer of a queue, a timer of a call coming due, the connection closing, a scheduled
  reconnect coming due. The \<open>error option\<close> of a timer and of a delivery to a reply
  consumer is the failure of the queue deletion requested there; that of a delivery to a
  subscription is the error the channel throws on \<open>ack\<close> and \<open>nack\<close>.
\<close>

datatype event =
    ModuleInit connect_env "error option"
  | ModuleDestroy cleanup_env
  | Call call_env string string json "js_number option"
  | Send "error option" string string json
  | Deliver queue "amqp_msg option" "error option"
  | TimerDue cid "error option"
  | ConnectionClosed attempt
  | RetryDue attempt

fun step :: "event \<Rightarrow> service \<Rightarrow> service" where
  "step (ModuleInit cenv serr) s = snd (onModuleInit cenv serr s)"
| "step (ModuleDestroy env) s = cleanup env s"
| "step (Call env exchange routingKey msg timeout) s =
     snd (publishWithResponse env exchange routingKey msg timeout s)"
| "step (Send err exchange routingKey msg) s = snd (publish err exchange routingKey msg s)"
| "step (Deliver q msg derr) s =
     (case consumers s q of
        None \<Rightarrow> s
      | Some (Reply c) \<Rightarrow> reply_callback c msg derr s
      | Some (Subscription q' callback) \<Rightarrow> on_message q' callback msg derr s)"
| "step (TimerDue h derr) s = fire_timer h derr s"
| "step (ConnectionClosed att) s = on_close att s"
| "step (RetryDue att) s = fire_retry att s"

fun run :: "service \<Rightarrow> event list \<Rightarrow> service" where
  "run s [] = s"
| "run s (ev # evs) = run (step ev s) evs"

text \<open>The correlation ids that the calls of a run draw.\<close>

fun call_ids :: "event list \<Rightarrow> cid list" where
  "call_ids [] = []"
| "call_ids (Call env exchange routingKey msg timeout # evs) = uuid env # call_ids evs"
| "call_ids (ev # evs) = call_ids evs"

text \<open>The terminal events applied to a call, in order, and the deletions requested of a queue.\<close>

definition terminal_events :: "cid \<Rightarrow> service \<Rightarrow> promise list" where
  "terminal_events c s = map snd (filter (\<lambda>x. fst x = c) (settlements s))"

definition deletions :: "queue \<Rightarrow> service \<Rightarrow> nat" where
  "deletions q s = length (filter (\<lambda>op. op = DeleteQueue q) (oplog s))"

subsection \<open>Bookkeeping of one call\<close>

text \<open>
  The requests issued between two states of the service.
\<close>

definition issued :: "service \<Rightarrow> service \<Rightarrow> chan_op list" where
  "issued s s' = drop (length (oplog s)) (oplog s')"

text \<open>
  What the service holds about the call with correlation id \<open>c\<close>: the fate of its timer,
  its registry entry, its promise and the terminal events applied to it. A call is in one
  of four phases: not started; started with the timer armed (registered, or already removed
  from the registry by the catch block); resolved by a reply, with the timer cleared; or
  rejected by its timer.
\<close>

definition view :: "service \<Rightarrow> cid \<Rightarrow> timer_status option \<times> entry option \<times> promise option \<times> promise list" where
  "view s c = (map_option fate (timers s c), responseEmitter s c, promises s c, terminal_events c s)"

fun ok_view :: "cid \<Rightarrow> timer_status option \<times> entry option \<times> promise option \<times> promise list \<Rightarrow> bool" where
  "ok_view c (None, r, p, es) = (r = None \<and> p = None \<and> es = [])"
| "ok_view c (Some Armed, r, p, es) =
     (p = Some Pending \<and> es = [] \<and> (\<forall>e. r = Some e \<longrightarrow> timer e = c))"
| "ok_view c (Some Cleared, r, p, es) =
     (r = None \<and> (\<exists>v. es = [Resolved v] \<and> p = Some (Resolved v)))"
| "ok_view c (Some Fired, r, p, es) =
     (r = None \<and> es = [Rejected (Error ''Request timeout'')]
      \<and> p = Some (Rejected (Error ''Request timeout'')))"

definition call_ok :: "service \<Rightarrow> cid \<Rightarrow> bool" where
  "call_ok s c = ok_view c (view s c)"

definition core :: "service \<Rightarrow> (cid \<rightharpoonup> entry) \<times> (cid \<rightharpoonup> timer_rec) \<times> (cid \<rightharpoonup> promise) \<times> (cid \<times> promise) list" where
  "core s = (responseEmitter s, timers s, promises s, settlements s)"

text \<open>The events that leave the registry, the timers and the promises alone.\<close>

fun frame_event :: "service \<Rightarrow> event \<Rightarrow> bool" where
  "frame_event s (Call env ex rk m t) = False"
| "frame_event s (TimerDue h d) = False"
| "frame_event s (Deliver q msg d) = (case consumers s q of Some (Reply c) \<Rightarrow> False | _ \<Rightarrow> True)"
| "frame_event s ev = True"

subsection \<open>Counting and framing\<close>

text \<open>
  Auxiliary notions for the statements about runs: the replies addressed to a call that
  occur in a list of events, whether the timer of a call has fired, the consumers that the
  calls install, the events that concern one call, and the channel requests that one
  delivery to a subscription makes.
\<close>

fun matching_replies :: "cid \<Rightarrow> event list \<Rightarrow> nat" where
  "matching_replies c [] = 0"
| "matching_replies c (Deliver q (Some m) d # evs) =
     (if q = replyTo_of c \<and> correlationId m = Some c \<and> content m \<noteq> None then 1 else 0)
     + matching_replies c evs"
| "matching_replies c (ev # evs) = matching_replies c evs"

definition fired :: "cid \<Rightarrow> service \<Rightarrow> nat" where
  "fired c s = (case timers s c of None \<Rightarrow> 0 | Some t \<Rightarrow> if fate t = Fired then 1 else 0)"

definition reply_consumers_ok :: "service \<Rightarrow> bool" where
  "reply_consumers_ok s = (\<forall>q c. consumers s q = Some (Reply c) \<longrightarrow> q = replyTo_of c)"

text \<open>The state outside the registry: the consumers and the deletion requests.\<close>

definition shell :: "queue \<Rightarrow> service \<Rightarrow> (queue \<rightharpoonup> consumer) \<times> nat" where
  "shell q s = (consumers s, deletions q s)"

definition cons_inv :: "cid option \<Rightarrow> service \<Rightarrow> bool" where
  "cons_inv co s =
     ((case co of None \<Rightarrow> True | Some c \<Rightarrow> consumers s (replyTo_of c) = Some (Reply c))
      \<and> reply_consumers_ok s)"

fun touches :: "cid \<Rightarrow> event \<Rightarrow> bool" where
  "touches c (Call env ex rk m t) = (uuid env = c)"
| "touches c (TimerDue h d) = (h = c)"
| "touches c (Deliver q msg d) = (q = replyTo_of c)"
| "touches c ev = False"

text \<open>The part of the service that belongs to one call.\<close>

definition own :: "cid \<Rightarrow> service \<Rightarrow> entry option \<times> timer_rec option \<times> promise option \<times> consumer option" where
  "own c s = (responseEmitter s c, timers s c, promises s c, consumers s (replyTo_of c))"

definition delivery_requests :: "handler \<Rightarrow> amqp_msg \<Rightarrow> error option \<Rightarrow> chan_op list" where
  "delivery_requests h m cerr =
     (case content m of
        None \<Rightarrow> [Nack m False False]
      | Some decoded \<Rightarrow>
          if snd (h decoded m) = None
          then (case cerr of None \<Rightarrow> [Ack m] | Some e \<Rightarrow> [Ack m, Nack m False False])
          else [Nack m False False])"

section \<open>The order service (orders.service.ts)\<close>

datatype OrderStatus = PENDING | CONFIRMED | FAILED

text \<open>
  The reply of the inventory service. \<open>message\<close> and \<open>availableStock\<close> are optional;
  \<open>availableStock\<close> maps a product code to a number.
\<close>

record StockCheckResponse =
  orderId :: string
  success :: bool
  message :: "string option"
  availableStock :: "(string \<rightharpoonup> js_number) option"

record CreateOrderDto =
  productCode :: string
  quantity :: js_number
  totalPrice :: "js_number option"

text \<open>The order document: the fields it is created from, its id and its status.\<close>

record Order = CreateOrderDto +
  order_id :: string
  status :: OrderStatus

datatype repo_call = CreateOrder OrderStatus | UpdateOrderStatus string OrderStatus

text \<open>
  The collection of orders, the calls made on the repository, and the event types given
  to the audit log (\<open>logOrderEvent\<close> swallows its own failures).
\<close>

record order_service =
  orders :: "string \<rightharpoonup> Order"
  repo_calls :: "repo_call list"
  audit :: "string list"

text \<open>
  What the environment decides during one \<open>createOrder\<close>: the outcomes of the two
  requests to the inventory service, the value the runtime computes for
  \<open>quantity * availableStock[productCode]\<close>, and for each repository call whether the
  database rejects it (\<open>save_result\<close> gives the id of the stored order).
\<close>

record order_env =
  stock_check :: "error + StockCheckResponse"
  total :: js_number
  save_result :: "error + string"
  deduction :: "error + StockCheckResponse"
  update_confirmed_err :: "error option"
  update_failed_err :: "error option"

definition logOrderEvent :: "string \<Rightarrow> order_service \<Rightarrow> order_service" where
  "logOrderEvent eventType st = st\<lparr>audit := audit st @ [eventType]\<rparr>"

text \<open>\<open>findByIdAndUpdate(orderId, {$set: {status}}, {new: true})\<close> when the database answers.\<close>

definition updateOrderStatus :: "string \<Rightarrow> OrderStatus \<Rightarrow> order_service \<Rightarrow> Order option \<times> order_service" where
  "updateOrderStatus oid st_new st =
     (case orders st oid of
        None \<Rightarrow> (None, st)
      | Some order \<Rightarrow>
          (Some (order\<lparr>status := st_new\<rparr>),
           st\<lparr>orders := (orders st)(oid \<mapsto> order\<lparr>status := st_new\<rparr>)\<rparr>))"

definition called :: "repo_call \<Rightarrow> order_service \<Rightarrow> order_service" where
  "called c st = st\<lparr>repo_calls := repo_calls st @ [c]\<rparr>"

text \<open>\<open>x.message || fallback\<close>: an absent or empty message gives the fallback.\<close>

definition message_or :: "StockCheckResponse \<Rightarrow> string \<Rightarrow> string" where
  "message_or r fallback =
     (case message r of None \<Rightarrow> fallback | Some m \<Rightarrow> if m = [] then fallback else m)"

text \<open>The outer catch block (lines 121-127).\<close>

definition outer_catch :: "error \<Rightarrow> order_service \<Rightarrow> (error + Order option) \<times> order_service" where
  "outer_catch e st = (Inl e, logOrderEvent ''Order creation failed'' st)"

text \<open>The inner catch block (lines 104-120).\<close>

definition inner_catch :: "order_env \<Rightarrow> string \<Rightarrow> order_service \<Rightarrow> (error + Order option) \<times> order_service" where
  "inner_catch env oid st =
     (let st1 = called (UpdateOrderStatus oid FAILED) st
      in (case update_failed_err env of
            Some e \<Rightarrow> outer_catch e st1
          | None \<Rightarrow>
              (let st2 = snd (updateOrderStatus oid FAILED st1);
                   st3 = logOrderEvent ''Stock deduction failed'' st2
               in outer_catch (HttpException ''Failed to process order'' 500) st3)))"

definition createOrder :: "order_env \<Rightarrow> CreateOrderDto \<Rightarrow> order_service \<Rightarrow> (error + Order option) \<times> order_service" where
  "createOrder env createOrderDto st =
     (case stock_check env of
        Inl e \<Rightarrow> outer_catch e st
      | Inr stockCheckResponse \<Rightarrow>
          if \<not> success stockCheckResponse then
            outer_catch
              (HttpException (message_or stockCheckResponse ''Insufficient stock available'') 400)
              (logOrderEvent ''Stock check failed'' st)
          else
            (case availableStock stockCheckResponse of
               None \<Rightarrow>
                 outer_catch
                   (TypeError (''Cannot read properties of undefined (reading ''
                      @ [CHR 0x27] @ productCode createOrderDto @ [CHR 0x27] @ '')'')) st
             | Some stock \<Rightarrow>
                 (let st1 = called (CreateOrder PENDING) st
                  in (case save_result env of
                        Inl e \<Rightarrow> outer_catch e st1
                      | Inr oid \<Rightarrow>
                          (let order = \<lparr>productCode = productCode createOrderDto,
                                        quantity = quantity createOrderDto,
                                        totalPrice = Some (total env),
                                        order_id = oid, status = PENDING\<rparr>;
                               st2 = st1\<lparr>orders := (orders st1)(oid \<mapsto> order)\<rparr>
                           in (case deduction env of
                                 Inl e \<Rightarrow> inner_catch env oid st2
                               | Inr deductionResponse \<Rightarrow>
                                   if \<not> success deductionResponse then inner_catch env oid st2
                                   else
                                     (let st3 = called (UpdateOrderStatus oid CONFIRMED) st2
                                      in (case update_confirmed_err env of
                                            Some e \<Rightarrow> inner_catch env oid st3
                                          | None \<Rightarrow>
                                              (let (confirmedOrder, st4) =
                                                     updateOrderStatus oid CONFIRMED st3
                                               in (Inr confirmedOrder,
                                                   logOrderEvent ''Order confirmed'' st4))))))))))"

section \<open>Properties of the RabbitMQ service\<close>

subsection \<open>Effects of the operations on the registry, the timers and the promises\<close>

lemma view_core:
  assumes "core s' = core s"
  shows "view s' c = view s c"
proof -
  from assms have "responseEmitter s' = responseEmitter s" "timers s' = timers s"
    "promises s' = promises s" "settlements s' = settlements s"
    by (simp_all add: core_def)
  then show ?thesis
    unfolding view_def terminal_events_def by (simp only:)
qed

lemma call_ok_core: "core s' = core s \<Longrightarrow> call_ok s' c = call_ok s c"
  using view_core [of s' s c] by (simp add: call_ok_def)

lemma core_request [simp]: "core (request op s) = core s"
  by (simp add: core_def request_def)

lemma core_log_msg [simp]: "core (log_msg m s) = core s"
  by (simp add: core_def log_msg_def)

lemma core_cleanup [simp]: "core (cleanup env s) = core s"
  by (simp add: cleanup_def Let_def split: option.splits)

lemma core_connect [simp]: "core (snd (connect cenv s)) = core s"
  by (cases cenv) (simp_all add: core_def log_msg_def)

lemma core_subscribe [simp]: "core (snd (subscribe err q h s)) = core s"
  by (simp add: subscribe_def Let_def core_def log_msg_def request_def split: option.splits)

lemma core_publish [simp]: "core (snd (publish err ex rk m s)) = core s"
  by (simp add: publish_def Let_def core_def log_msg_def request_def split: option.splits)

lemma core_log_lines [simp]: "core (log_lines ls s) = core s"
  by (simp add: core_def log_lines_def)

lemma core_on_message [simp]: "core (on_message q h msg cerr s) = core s"
  by (simp add: on_message_def Let_def split: option.splits prod.splits)

lemma core_onModuleInit [simp]: "core (snd (onModuleInit cenv serr s)) = core s"
proof -
  have "core (snd (setupSubscriptions serr (snd (connect cenv s)))) = core s"
    by (simp add: setupSubscriptions_def)
  then show ?thesis
    using core_connect [of cenv s]
    by (cases "connect cenv s") (auto simp: onModuleInit_def split: option.splits)
qed

lemma core_reconnect_failed [simp]: "core (reconnect_failed s) = core s"
  by (simp add: reconnect_failed_def core_def log_msg_def)

lemma core_reconnect [simp]: "core (reconnect att s) = core s"
proof -
  obtain r1 s2 where c: "connect (att_connect att) (cleanup (att_cleanup att) s) = (r1, s2)"
    by (cases "connect (att_connect att) (cleanup (att_cleanup att) s)")
  obtain r2 s3 where u: "setupSubscriptions (att_subscribe att) s2 = (r2, s3)"
    by (cases "setupSubscriptions (att_subscribe att) s2")
  have 2: "core s2 = core s"
    using core_connect [of "att_connect att" "cleanup (att_cleanup att) s"] c by simp
  have "core (snd (setupSubscriptions (att_subscribe att) s2)) = core s2"
    by (simp add: setupSubscriptions_def)
  with u have 3: "core s3 = core s2" by simp
  show ?thesis
    using c u 2 3 by (simp add: reconnect_def Let_def split: option.splits)
qed

lemma core_on_close [simp]: "core (on_close att s) = core s"
  by (simp add: on_close_def)

lemma core_fire_retry [simp]: "core (fire_retry att s) = core s"
  by (simp add: fire_retry_def split: nat.splits) (simp add: core_def)

lemma terminal_events_settle:
  "terminal_events c (settle p v s) = terminal_events c s @ (if p = c then [v] else [])"
  by (simp add: terminal_events_def settle_def)

lemma terminal_events_core: "settlements s' = settlements s \<Longrightarrow> terminal_events c s' = terminal_events c s"
  by (simp add: terminal_events_def)

lemma call_ok_entry:
  assumes "call_ok s c" and "responseEmitter s c = Some e"
  shows "timer e = c \<and> (\<exists>t. timers s c = Some t \<and> fate t = Armed)
         \<and> promises s c = Some Pending \<and> terminal_events c s = []"
proof (cases "timers s c")
  case None
  with assms show ?thesis by (simp add: call_ok_def view_def)
next
  case (Some t)
  with assms show ?thesis by (cases "fate t") (simp_all add: call_ok_def view_def)
qed

lemma call_ok_armed:
  assumes "call_ok s c" and "timers s c = Some t" and "fate t = Armed"
  shows "promises s c = Some Pending \<and> terminal_events c s = []"
  using assms by (simp add: call_ok_def view_def)

lemma fire_timer_idle:
  "timers s h = None \<or> (\<exists>t. timers s h = Some t \<and> fate t \<noteq> Armed) \<Longrightarrow> fire_timer h d s = s"
  by (auto simp: fire_timer_def)

lemma fire_timer_armed:
  assumes "timers s h = Some t" and "fate t = Armed"
  shows "responseEmitter (fire_timer h d s) = (responseEmitter s)(h := None)"
    and "timers (fire_timer h d s) = (timers s)(h \<mapsto> t\<lparr>fate := Fired\<rparr>)"
    and "promises (fire_timer h d s) =
           (if promises s h = Some Pending
            then (promises s)(h \<mapsto> Rejected (Error ''Request timeout'')) else promises s)"
    and "settlements (fire_timer h d s) = settlements s @ [(h, Rejected (Error ''Request timeout''))]"
  using assms
  by (simp_all add: fire_timer_def timeout_callback_def deleteQueue_logged_def settle_def
      request_def log_msg_def Let_def split: option.splits)

lemma fire_timer_ok:
  assumes "call_ok s c"
  shows "call_ok (fire_timer h d s) c"
proof (cases "\<exists>t. timers s h = Some t \<and> fate t = Armed")
  case False
  then have "fire_timer h d s = s" by (intro fire_timer_idle) (cases "timers s h", auto)
  with assms show ?thesis by simp
next
  case True
  then obtain t where t: "timers s h = Some t" "fate t = Armed" by blast
  show ?thesis
  proof (cases "h = c")
    case True
    with t have tc: "timers s c = Some t" "fate t = Armed" by simp_all
    with assms have "promises s c = Some Pending" "terminal_events c s = []"
      using call_ok_armed by blast+
    then show ?thesis
      unfolding True
      by (simp add: call_ok_def view_def fire_timer_armed [OF tc] terminal_events_def)
  next
    case False
    then have "view (fire_timer h d s) c = view s c"
      by (simp add: view_def fire_timer_armed [OF t] terminal_events_def)
    with assms show ?thesis by (simp add: call_ok_def)
  qed
qed

lemma clearTimeout_fields [simp]:
  "responseEmitter (clearTimeout h s) = responseEmitter s"
  "promises (clearTimeout h s) = promises s"
  "settlements (clearTimeout h s) = settlements s"
  "oplog (clearTimeout h s) = oplog s"
  "consumers (clearTimeout h s) = consumers s"
  by (simp_all add: clearTimeout_def split: option.splits)

lemma core_deleteQueue_logged [simp]: "core (deleteQueue_logged q d s) = core s"
  by (cases d) (simp_all add: deleteQueue_logged_def Let_def)

lemma reply_callback_miss:
  assumes "\<not> (\<exists>m v e. msg = Some m \<and> correlationId m = Some c \<and> content m = Some v
              \<and> responseEmitter s c = Some e)"
  shows "core (reply_callback c msg d s) = core s"
proof (cases msg)
  case None
  then show ?thesis by (simp add: reply_callback_def)
next
  case m: (Some m)
  show ?thesis
  proof (cases "correlationId m = Some c")
    case False
    with m show ?thesis by (simp add: reply_callback_def)
  next
    case True
    show ?thesis
    proof (cases "content m")
      case None
      with m True show ?thesis by (simp add: reply_callback_def)
    next
      case (Some v)
      with assms m True have "responseEmitter s c = None"
        by (cases "responseEmitter s c") simp_all
      with m True Some show ?thesis
        by (simp add: reply_callback_def Let_def)
    qed
  qed
qed

lemma deleteQueue_logged_fields [simp]:
  "responseEmitter (deleteQueue_logged q d s) = responseEmitter s"
  "timers (deleteQueue_logged q d s) = timers s"
  "promises (deleteQueue_logged q d s) = promises s"
  "settlements (deleteQueue_logged q d s) = settlements s"
  "consumers (deleteQueue_logged q d s) = consumers s"
  by (cases d; simp add: deleteQueue_logged_def Let_def request_def log_msg_def)+

lemma reply_callback_hit:
  assumes "msg = Some m" "correlationId m = Some c" "content m = Some v"
    "responseEmitter s c = Some e"
  shows "responseEmitter (reply_callback c msg d s) = (responseEmitter s)(c := None)"
    and "timers (reply_callback c msg d s) = timers (clearTimeout (timer e) s)"
    and "promises (reply_callback c msg d s) =
           (if promises s c = Some Pending then (promises s)(c \<mapsto> Resolved v) else promises s)"
    and "settlements (reply_callback c msg d s) = settlements s @ [(c, Resolved v)]"
  using assms
  by (simp_all add: reply_callback_def settle_def Let_def)

lemma reply_callback_ok:
  assumes "call_ok s c" and "call_ok s c'"
  shows "call_ok (reply_callback c' msg d s) c"
proof (cases "\<exists>m v e. msg = Some m \<and> correlationId m = Some c' \<and> content m = Some v
              \<and> responseEmitter s c' = Some e")
  case False
  then show ?thesis using assms(1) call_ok_core [OF reply_callback_miss] by blast
next
  case True
  then obtain m v e where h: "msg = Some m" "correlationId m = Some c'" "content m = Some v"
    "responseEmitter s c' = Some e" by blast
  from call_ok_entry [OF assms(2) h(4)] obtain t where
    e: "timer e = c'" and t: "timers s c' = Some t" "fate t = Armed"
    and p: "promises s c' = Some Pending" "terminal_events c' s = []" by blast
  have tm: "timers (reply_callback c' msg d s) = (timers s)(c' \<mapsto> t\<lparr>fate := Cleared\<rparr>)"
    by (simp add: reply_callback_hit(2) [OF h] e clearTimeout_def t)
  show ?thesis
  proof (cases "c' = c")
    case True
    show ?thesis
      using p unfolding True [symmetric]
      by (simp add: call_ok_def view_def reply_callback_hit(1,3,4) [OF h] tm terminal_events_def)
  next
    case False
    then have "view (reply_callback c' msg d s) c = view s c"
      by (simp add: view_def reply_callback_hit(1,3,4) [OF h] tm terminal_events_def)
    with assms show ?thesis by (simp add: call_ok_def)
  qed
qed

lemma publishWithResponse_no_channel:
  "channel s = None \<Longrightarrow> snd (publishWithResponse env ex rk m t s) = s"
  by (simp add: publishWithResponse_def)

lemma publishWithResponse_assert_fails:
  assumes "channel s = Some ch" "assertQueue_err env = Some e"
  shows "responseEmitter (snd (publishWithResponse env ex rk m t s)) = (responseEmitter s)(uuid env := None)"
    and "timers (snd (publishWithResponse env ex rk m t s)) = timers s"
    and "promises (snd (publishWithResponse env ex rk m t s)) = promises s"
    and "settlements (snd (publishWithResponse env ex rk m t s)) = settlements s"
  using assms
  by (simp_all add: publishWithResponse_def catch_block_def request_def Let_def)

lemma publishWithResponse_started:
  assumes "channel s = Some ch" "assertQueue_err env = None"
  shows "responseEmitter (snd (publishWithResponse env ex rk m t s)) =
           (if publish_err env = None
            then (responseEmitter s)(uuid env \<mapsto> \<lparr>resolve = uuid env, reject = uuid env, timer = uuid env\<rparr>)
            else (responseEmitter s)(uuid env := None))"
    and "timers (snd (publishWithResponse env ex rk m t s)) =
           (timers s)(uuid env \<mapsto> \<lparr>delay = timer_delay (timeout_or_default t), fate = Armed\<rparr>)"
    and "promises (snd (publishWithResponse env ex rk m t s)) = (promises s)(uuid env \<mapsto> Pending)"
    and "settlements (snd (publishWithResponse env ex rk m t s)) = settlements s"
  using assms
  by (cases "publish_err env"; cases "consume_err env";
      simp add: publishWithResponse_def catch_block_def request_def setTimeout_def Let_def)+

lemma publishWithResponse_ok:
  assumes "call_ok s c" and "uuid env = c \<Longrightarrow> timers s c = None"
  shows "call_ok (snd (publishWithResponse env ex rk m t s)) c"
proof (cases "channel s")
  case None
  with assms show ?thesis by (simp add: publishWithResponse_no_channel)
next
  case (Some ch)
  show ?thesis
  proof (cases "uuid env = c")
    case False
    have "view (snd (publishWithResponse env ex rk m t s)) c = view s c"
    proof (cases "assertQueue_err env")
      case None
      with False show ?thesis
        by (simp add: view_def publishWithResponse_started [OF Some None] terminal_events_def)
    next
      case (Some e)
      with False show ?thesis
        by (simp add: view_def publishWithResponse_assert_fails [OF \<open>channel s = Some ch\<close> Some]
            terminal_events_def)
    qed
    with assms show ?thesis by (simp add: call_ok_def)
  next
    case True
    with assms have n: "timers s (uuid env) = None" by simp
    from assms True have "ok_view (uuid env) (view s (uuid env))" by (simp add: call_ok_def)
    with n have v: "responseEmitter s (uuid env) = None" "promises s (uuid env) = None"
      "terminal_events (uuid env) s = []"
      by (simp_all add: view_def)
    show ?thesis
    proof (cases "assertQueue_err env")
      case None
      show ?thesis using v unfolding True [symmetric]
        by (simp add: call_ok_def view_def publishWithResponse_started [OF Some None]
            terminal_events_def)
    next
      case (Some e)
      show ?thesis using v n unfolding True [symmetric]
        by (simp add: call_ok_def view_def
            publishWithResponse_assert_fails [OF \<open>channel s = Some ch\<close> Some] terminal_events_def)
    qed
  qed
qed

lemma timers_clearTimeout: "timers (clearTimeout h s) c = None \<longleftrightarrow> timers s c = None"
  by (simp add: clearTimeout_def split: option.splits)

lemma timers_reply_callback:
  "timers (reply_callback c' msg d s) c = None \<longleftrightarrow> timers s c = None"
proof (cases "\<exists>m v e. msg = Some m \<and> correlationId m = Some c' \<and> content m = Some v
              \<and> responseEmitter s c' = Some e")
  case False
  then have "core (reply_callback c' msg d s) = core s" by (rule reply_callback_miss)
  then show ?thesis by (simp add: core_def)
next
  case True
  then obtain m v e where h: "msg = Some m" "correlationId m = Some c'" "content m = Some v"
    "responseEmitter s c' = Some e" by blast
  show ?thesis by (simp add: reply_callback_hit(2) [OF h] timers_clearTimeout)
qed

lemma timers_fire_timer: "timers (fire_timer h d s) c = None \<longleftrightarrow> timers s c = None"
proof (cases "\<exists>t. timers s h = Some t \<and> fate t = Armed")
  case False
  then have "fire_timer h d s = s" by (intro fire_timer_idle) (cases "timers s h", auto)
  then show ?thesis by simp
next
  case True
  then obtain t where t: "timers s h = Some t" "fate t = Armed" by blast
  then show ?thesis by (auto simp: fire_timer_armed(2) [OF t])
qed

lemma timers_of_core: "core s' = core s \<Longrightarrow> timers s' = timers s"
  by (simp add: core_def)

lemma core_frame_event: "frame_event s ev \<Longrightarrow> core (step ev s) = core s"
  by (cases ev) (simp_all split: option.splits consumer.splits)

lemma step_ok:
  assumes "\<forall>c. call_ok s c"
    and "\<And>env ex rk m t. ev = Call env ex rk m t \<Longrightarrow> timers s (uuid env) = None"
  shows "call_ok (step ev s) c"
proof (cases "frame_event s ev")
  case True
  then have "core (step ev s) = core s" by (rule core_frame_event)
  then have "call_ok (step ev s) c = call_ok s c" by (rule call_ok_core)
  with assms(1) show ?thesis by simp
next
  case False
  show ?thesis
  proof (cases ev)
    case (Call env ex rk m t)
    from assms(2) [OF Call] have "uuid env = c \<Longrightarrow> timers s c = None" by simp
    with assms(1) have "call_ok (snd (publishWithResponse env ex rk m t s)) c"
      by (intro publishWithResponse_ok) simp_all
    with Call show ?thesis by simp
  next
    case (Deliver q msg d)
    with False obtain c' where "consumers s q = Some (Reply c')"
      by (auto split: option.splits consumer.splits)
    with Deliver assms(1) show ?thesis by (simp add: reply_callback_ok)
  next
    case (TimerDue h d)
    with assms show ?thesis by (simp add: fire_timer_ok)
  qed (use False in simp_all)
qed

lemma timers_publishWithResponse:
  assumes "timers s c = None" and "uuid env \<noteq> c"
  shows "timers (snd (publishWithResponse env ex rk m t s)) c = None"
proof (cases "channel s")
  case None
  with assms show ?thesis by (simp add: publishWithResponse_no_channel)
next
  case (Some ch)
  show ?thesis
  proof (cases "assertQueue_err env")
    case None
    with assms show ?thesis by (simp add: publishWithResponse_started(2) [OF Some None])
  next
    case e: (Some e)
    with assms show ?thesis by (simp add: publishWithResponse_assert_fails(2) [OF Some e])
  qed
qed

lemma timers_step:
  assumes "timers s c = None" and "c \<notin> set (call_ids [ev])"
  shows "timers (step ev s) c = None"
proof (cases "frame_event s ev")
  case True
  then have "core (step ev s) = core s" by (rule core_frame_event)
  then have "timers (step ev s) = timers s" by (simp add: core_def)
  with assms(1) show ?thesis by simp
next
  case False
  show ?thesis
  proof (cases ev)
    case (Call env ex rk m t)
    with assms show ?thesis by (simp add: timers_publishWithResponse)
  next
    case (Deliver q msg d)
    with False obtain c' where "consumers s q = Some (Reply c')"
      by (auto split: option.splits consumer.splits)
    with Deliver assms(1) show ?thesis by (simp add: timers_reply_callback)
  next
    case (TimerDue h d)
    with assms show ?thesis by (simp add: timers_fire_timer)
  qed (use False in simp_all)
qed

lemma run_append: "run s (xs @ ys) = run (run s xs) ys"
  by (induction xs arbitrary: s) simp_all

lemma call_ids_append: "call_ids (xs @ ys) = call_ids xs @ call_ids ys"
  by (induction xs rule: call_ids.induct) simp_all

lemma call_ids_Cons: "call_ids (ev # evs) = call_ids [ev] @ call_ids evs"
  using call_ids_append [of "[ev]" evs] by simp

lemma run_ok:
  assumes "\<forall>c. call_ok s c" and "distinct (call_ids evs)"
    and "\<forall>c\<in>set (call_ids evs). timers s c = None"
  shows "call_ok (run s evs) c"
  using assms
proof (induction evs arbitrary: s)
  case Nil
  then show ?case by simp
next
  case (Cons ev evs)
  have ids: "call_ids (ev # evs) = call_ids [ev] @ call_ids evs" by (rule call_ids_Cons)
  have 1: "\<forall>c. call_ok (step ev s) c"
  proof
    fix c
    show "call_ok (step ev s) c"
    proof (rule step_ok)
      show "\<forall>c. call_ok s c" by (rule Cons.prems(1))
    next
      fix env ex rk m t
      assume "ev = Call env ex rk m t"
      with Cons.prems(3) show "timers s (uuid env) = None" by simp
    qed
  qed
  have 2: "distinct (call_ids evs)" using Cons.prems(2) ids by simp
  have 3: "\<forall>c\<in>set (call_ids evs). timers (step ev s) c = None"
  proof
    fix c
    assume c: "c \<in> set (call_ids evs)"
    with Cons.prems(3) ids have "timers s c = None" by simp
    moreover from c Cons.prems(2) ids have "c \<notin> set (call_ids [ev])" by auto
    ultimately show "timers (step ev s) c = None" by (rule timers_step)
  qed
  from Cons.IH [OF 1 2 3] show ?case by simp
qed

lemma initial_ok: "call_ok initial c"
  by (simp add: call_ok_def view_def initial_def terminal_events_def)

lemma reachable_ok: "distinct (call_ids evs) \<Longrightarrow> call_ok (run initial evs) c"
  by (rule run_ok) (simp_all add: initial_ok, simp add: initial_def)

lemma settlements_reply_callback:
  "settlements (reply_callback c msg d s) = settlements s \<or>
   (\<exists>m v. msg = Some m \<and> correlationId m = Some c \<and> content m = Some v
      \<and> settlements (reply_callback c msg d s) = settlements s @ [(c, Resolved v)])"
proof (cases "\<exists>m v e. msg = Some m \<and> correlationId m = Some c \<and> content m = Some v
              \<and> responseEmitter s c = Some e")
  case False
  then have "core (reply_callback c msg d s) = core s" by (rule reply_callback_miss)
  then show ?thesis by (simp add: core_def)
next
  case True
  then obtain m v e where h: "msg = Some m" "correlationId m = Some c" "content m = Some v"
    "responseEmitter s c = Some e" by blast
  have "settlements (reply_callback c msg d s) = settlements s @ [(c, Resolved v)]"
    by (rule reply_callback_hit(4) [OF h])
  with h(1-3) show ?thesis by blast
qed

lemma settlements_fire_timer:
  "settlements (fire_timer h d s) = settlements s \<or>
   settlements (fire_timer h d s) = settlements s @ [(h, Rejected (Error ''Request timeout''))]"
proof (cases "\<exists>t. timers s h = Some t \<and> fate t = Armed")
  case False
  then have "fire_timer h d s = s" by (intro fire_timer_idle) (cases "timers s h", auto)
  then show ?thesis by simp
next
  case True
  then obtain t where t: "timers s h = Some t" "fate t = Armed" by blast
  then show ?thesis by (simp add: fire_timer_armed(4) [OF t])
qed

lemma settlements_publishWithResponse:
  "settlements (snd (publishWithResponse env ex rk m t s)) = settlements s"
proof (cases "channel s")
  case None
  then show ?thesis by (simp add: publishWithResponse_no_channel)
next
  case (Some ch)
  then show ?thesis
    by (cases "assertQueue_err env")
       (simp_all add: publishWithResponse_started publishWithResponse_assert_fails)
qed

text \<open>What a single event can add to the settlements.\<close>

lemma settlements_step:
  "settlements (step ev s) = settlements s
   \<or> (\<exists>h d. ev = TimerDue h d
         \<and> settlements (step ev s) = settlements s @ [(h, Rejected (Error ''Request timeout''))])
   \<or> (\<exists>q m d c v. ev = Deliver q (Some m) d \<and> correlationId m = Some c \<and> content m = Some v
         \<and> settlements (step ev s) = settlements s @ [(c, Resolved v)])"
proof (cases "frame_event s ev")
  case True
  then have "core (step ev s) = core s" by (rule core_frame_event)
  then show ?thesis by (simp add: core_def)
next
  case False
  show ?thesis
  proof (cases ev)
    case (Call env ex rk m t)
    then show ?thesis by (simp add: settlements_publishWithResponse)
  next
    case (Deliver q msg d)
    with False obtain c' where "consumers s q = Some (Reply c')"
      by (auto split: option.splits consumer.splits)
    with Deliver settlements_reply_callback [of c' msg d s] show ?thesis by auto
  next
    case (TimerDue h d)
    with settlements_fire_timer [of h d s] show ?thesis by auto
  qed (use False in simp_all)
qed

lemma settlements_run: "\<exists>xs. settlements (run s evs) = settlements s @ xs"
proof (induction evs arbitrary: s)
  case Nil
  then show ?case by simp
next
  case (Cons ev evs)
  from settlements_step [of ev s] obtain ys where "settlements (step ev s) = settlements s @ ys"
    by auto
  moreover from Cons [of "step ev s"] obtain zs where
    "settlements (run (step ev s) evs) = settlements (step ev s) @ zs" by blast
  ultimately show ?case by simp
qed

lemma resolved_from_delivery:
  assumes "(c, Resolved v) \<in> set (settlements (run s evs))"
  shows "(c, Resolved v) \<in> set (settlements s)
       \<or> (\<exists>q m d. Deliver q (Some m) d \<in> set evs \<and> correlationId m = Some c \<and> content m = Some v)"
  using assms
proof (induction evs arbitrary: s)
  case Nil
  then show ?case by simp
next
  case (Cons ev evs)
  from Cons.IH [of "step ev s"] Cons.prems
  consider "(c, Resolved v) \<in> set (settlements (step ev s))"
    | "\<exists>q m d. Deliver q (Some m) d \<in> set evs \<and> correlationId m = Some c \<and> content m = Some v"
    by auto
  then show ?case
  proof cases
    case 1
    from settlements_step [of ev s]
    consider "settlements (step ev s) = settlements s"
      | h where "settlements (step ev s) = settlements s @ [(h, Rejected (Error ''Request timeout''))]"
      | q m d c' v' where "ev = Deliver q (Some m) d" "correlationId m = Some c'"
          "content m = Some v'" "settlements (step ev s) = settlements s @ [(c', Resolved v')]"
      by blast
    then show ?thesis
    proof cases
      case 1
      with \<open>(c, Resolved v) \<in> set (settlements (step ev s))\<close> show ?thesis by simp
    next
      case 2
      with \<open>(c, Resolved v) \<in> set (settlements (step ev s))\<close> show ?thesis by simp
    next
      case 3
      show ?thesis
      proof (cases "(c, Resolved v) \<in> set (settlements s)")
        case True
        then show ?thesis by simp
      next
        case False
        with 3(4) \<open>(c, Resolved v) \<in> set (settlements (step ev s))\<close>
        have "c' = c" "v' = v" by simp_all
        with 3(1-3) have "Deliver q (Some m) d \<in> set (ev # evs) \<and> correlationId m = Some c
            \<and> content m = Some v" by simp
        then show ?thesis by blast
      qed
    qed
  next
    case 2
    then show ?thesis by auto
  qed
qed

lemma call_ok_terminal:
  assumes "call_ok s c"
  shows "length (terminal_events c s) \<le> 1"
    and "terminal_events c s \<noteq> [] \<Longrightarrow> responseEmitter s c = None"
    and "terminal_events c s = [v] \<Longrightarrow> promises s c = Some v"
    and "promises s c = Some (Resolved w) \<Longrightarrow> terminal_events c s = [Resolved w]"
proof -
  have "length (terminal_events c s) \<le> 1
      \<and> (terminal_events c s \<noteq> [] \<longrightarrow> responseEmitter s c = None)
      \<and> (terminal_events c s = [v] \<longrightarrow> promises s c = Some v)
      \<and> (promises s c = Some (Resolved w) \<longrightarrow> terminal_events c s = [Resolved w])"
  proof (cases "timers s c")
    case None
    with assms show ?thesis by (simp add: call_ok_def view_def)
  next
    case (Some t)
    with assms show ?thesis by (cases "fate t") (auto simp add: call_ok_def view_def)
  qed
  then show "length (terminal_events c s) \<le> 1"
    and "terminal_events c s \<noteq> [] \<Longrightarrow> responseEmitter s c = None"
    and "terminal_events c s = [v] \<Longrightarrow> promises s c = Some v"
    and "promises s c = Some (Resolved w) \<Longrightarrow> terminal_events c s = [Resolved w]"
    by simp_all
qed

lemma terminal_events_run:
  "\<exists>ys. terminal_events c (run s evs) = terminal_events c s @ ys"
proof -
  from settlements_run [of s evs] obtain xs where "settlements (run s evs) = settlements s @ xs"
    by blast
  then show ?thesis by (simp add: terminal_events_def)
qed

lemma issued_cases:
  "issued s (snd (publishWithResponse env ex rk msg t s)) =
    (case channel s of None \<Rightarrow> []
     | Some ch \<Rightarrow> (case assertQueue_err env of
         Some e \<Rightarrow> [AssertQueue (replyTo_of (uuid env)) Exclusive_AutoDelete, DeleteQueue (replyTo_of (uuid env))]
       | None \<Rightarrow> [AssertQueue (replyTo_of (uuid env)) Exclusive_AutoDelete, Consume (replyTo_of (uuid env)) True,
                  Publish ex rk msg (Some (uuid env)) (Some (replyTo_of (uuid env)))]
                 @ (case publish_err env of None \<Rightarrow> [] | Some e \<Rightarrow> [DeleteQueue (replyTo_of (uuid env))])))"
  by (cases "consume_err env")
     (simp_all add: issued_def publishWithResponse_def Let_def catch_block_def request_def setTimeout_def
      split: option.splits)

lemmas run_defs =
  publishWithResponse_def catch_block_def request_def setTimeout_def timeout_or_default_def
  replyTo_of_def reply_callback_def clearTimeout_def settle_def deleteQueue_logged_def log_msg_def
  fire_timer_def timeout_callback_def onModuleInit_def setupSubscriptions_def subscribe_def
  on_close_def reconnect_def reconnect_failed_def cleanup_def on_message_def
  initial_def topology_def Let_def terminal_events_def deletions_def issued_def

subsection \<open>The consumers, the deletion requests and the frame of a call\<close>

lemma deletions_request:
  "deletions q (request op s) = deletions q s + (if op = DeleteQueue q then 1 else 0)"
  by (simp add: deletions_def request_def)

lemma deletions_log_msg [simp]: "deletions q (log_msg m s) = deletions q s"
  by (simp add: deletions_def log_msg_def)

lemma consumers_request [simp]: "consumers (request op s) = consumers s"
  by (simp add: request_def)

lemma consumers_log_msg [simp]: "consumers (log_msg m s) = consumers s"
  by (simp add: log_msg_def)

lemma shell_cleanup [simp]: "shell q (cleanup env s) = shell q s"
  by (simp add: shell_def cleanup_def Let_def deletions_request split: option.splits)

lemma deletions_topology: "filter (\<lambda>op. op = DeleteQueue q) (take n topology) = []"
  by (simp add: topology_def take_Cons' )

lemma shell_connect [simp]: "shell q (snd (connect cenv s)) = shell q s"
  by (cases cenv)
     (simp_all add: shell_def deletions_def log_msg_def deletions_topology
        deletions_topology [of q "length topology", simplified])

lemma shell_publish [simp]: "shell q (snd (publish err ex rk m s)) = shell q s"
  by (simp add: shell_def publish_def Let_def deletions_request split: option.splits)

lemma shell_log_lines [simp]: "shell q (log_lines ls s) = shell q s"
  by (simp add: shell_def log_lines_def deletions_def)

lemma deletions_request_shell:
  "shell q (request op s) = (consumers s, deletions q s + (if op = DeleteQueue q then 1 else 0))"
  by (simp add: shell_def deletions_request)

lemma shell_log_msg [simp]: "shell q (log_msg m s) = shell q s"
  by (simp add: shell_def)

lemma shell_on_message [simp]: "shell q (on_message q' h msg cerr s) = shell q s"
  by (simp add: on_message_def shell_def deletions_def request_def log_msg_def log_lines_def
      Let_def split: option.splits prod.splits)

lemma deletions_consumers_update [simp]: "deletions q (s\<lparr>consumers := x\<rparr>) = deletions q s"
  by (simp add: deletions_def)

lemma deletions_subscribe [simp]: "deletions q (snd (subscribe err q' h s)) = deletions q s"
  by (simp add: subscribe_def Let_def deletions_request split: option.splits)

lemma consumers_subscribe:
  "consumers (snd (subscribe err q' h s)) = consumers s
   \<or> consumers (snd (subscribe err q' h s)) = (consumers s)(q' \<mapsto> Subscription q' h)"
  by (simp add: subscribe_def Let_def split: option.splits)

lemma cons_inv_eq:
  assumes "consumers s' = consumers s" and "cons_inv co s"
  shows "cons_inv co s'"
  using assms(2) unfolding cons_inv_def reply_consumers_ok_def assms(1) .

lemma consumers_of_shell: "shell q s' = shell q s \<Longrightarrow> consumers s' = consumers s"
  by (simp add: shell_def)

lemma deletions_of_shell: "shell q s' = shell q s \<Longrightarrow> deletions q s' = deletions q s"
  by (simp add: shell_def)

lemma replyTo_of_inject: "replyTo_of c = replyTo_of c' \<longleftrightarrow> c = c'"
  by (simp add: replyTo_of_def)

lemma replyTo_of_not_inventory:
  "replyTo_of c \<noteq> ''inventory.updates''" "''inventory.updates'' \<noteq> replyTo_of c"
  by (simp_all add: replyTo_of_def)

lemma cons_inv_update:
  assumes "cons_inv co s" and e: "consumers s' = (consumers s)(q' \<mapsto> k')"
    and k: "\<And>c. k' = Reply c \<Longrightarrow> q' = replyTo_of c"
    and q: "\<And>c. co = Some c \<Longrightarrow> q' = replyTo_of c \<Longrightarrow> k' = Reply c"
  shows "cons_inv co s'"
proof -
  from assms(1) have r: "\<And>q k. consumers s q = Some (Reply k) \<Longrightarrow> q = replyTo_of k"
    by (simp add: cons_inv_def reply_consumers_ok_def)
  have 1: "consumers s' (replyTo_of c) = Some (Reply c)" if "co = Some c" for c
  proof (cases "q' = replyTo_of c")
    case True
    from q [OF that True] True show ?thesis by (simp add: e)
  next
    case False
    moreover from assms(1) that have "consumers s (replyTo_of c) = Some (Reply c)"
      by (simp add: cons_inv_def)
    ultimately show ?thesis by (simp add: e)
  qed
  have 2: "q = replyTo_of c" if "consumers s' q = Some (Reply c)" for q c
  proof (cases "q = q'")
    case True
    with that have "k' = Reply c" by (simp add: e)
    then have "q' = replyTo_of c" by (rule k)
    with True show ?thesis by simp
  next
    case False
    with that have "consumers s q = Some (Reply c)" by (simp add: e)
    then show ?thesis by (rule r)
  qed
  show ?thesis
    unfolding cons_inv_def reply_consumers_ok_def
  proof (intro conjI allI impI)
    show "case co of None \<Rightarrow> True | Some c \<Rightarrow> consumers s' (replyTo_of c) = Some (Reply c)"
      using 1 by (cases co) simp_all
  next
    fix q c
    assume "consumers s' q = Some (Reply c)"
    then show "q = replyTo_of c" by (rule 2)
  qed
qed

lemma cons_inv_subscribe:
  assumes "cons_inv co s" and "\<And>c. co = Some c \<Longrightarrow> q' \<noteq> replyTo_of c"
  shows "cons_inv co (snd (subscribe err q' h s))"
proof -
  from consumers_subscribe [of err q' h s] show ?thesis
  proof
    assume "consumers (snd (subscribe err q' h s)) = consumers s"
    then show ?thesis using assms(1) by (rule cons_inv_eq)
  next
    assume "consumers (snd (subscribe err q' h s)) = (consumers s)(q' \<mapsto> Subscription q' h)"
    with assms(1) show ?thesis
      by (rule cons_inv_update) (use assms(2) in simp_all)
  qed
qed

lemma cons_inv_setupSubscriptions:
  "cons_inv co s \<Longrightarrow> cons_inv co (snd (setupSubscriptions err s))"
  unfolding setupSubscriptions_def
  by (rule cons_inv_subscribe) (simp_all add: replyTo_of_not_inventory)

lemma deletions_setupSubscriptions [simp]:
  "deletions q (snd (setupSubscriptions err s)) = deletions q s"
  by (simp add: setupSubscriptions_def)

lemma cons_inv_connect: "cons_inv co s \<Longrightarrow> cons_inv co (snd (connect cenv s))"
  using consumers_of_shell [OF shell_connect] by (rule cons_inv_eq)

lemma cons_inv_cleanup: "cons_inv co s \<Longrightarrow> cons_inv co (cleanup env s)"
  using consumers_of_shell [OF shell_cleanup] by (rule cons_inv_eq)

lemma deletions_connect [simp]: "deletions q (snd (connect cenv s)) = deletions q s"
  using shell_connect [of q cenv s] by (simp add: shell_def)

lemma deletions_cleanup [simp]: "deletions q (cleanup env s) = deletions q s"
  using shell_cleanup [of q env s] by (simp add: shell_def)

lemma onModuleInit_cases:
  "snd (onModuleInit cenv serr s) = snd (connect cenv s)
   \<or> snd (onModuleInit cenv serr s) = snd (setupSubscriptions serr (snd (connect cenv s)))"
  by (cases "connect cenv s") (auto simp: onModuleInit_def split: option.splits)

lemma deletions_onModuleInit [simp]: "deletions q (snd (onModuleInit cenv serr s)) = deletions q s"
proof -
  from onModuleInit_cases [of cenv serr s] show ?thesis
  proof
    assume "snd (onModuleInit cenv serr s) = snd (connect cenv s)"
    then show ?thesis by simp
  next
    assume "snd (onModuleInit cenv serr s) = snd (setupSubscriptions serr (snd (connect cenv s)))"
    then show ?thesis by simp
  qed
qed

lemma cons_inv_onModuleInit:
  assumes "cons_inv co s"
  shows "cons_inv co (snd (onModuleInit cenv serr s))"
proof -
  have 1: "cons_inv co (snd (connect cenv s))" using assms by (rule cons_inv_connect)
  then have 2: "cons_inv co (snd (setupSubscriptions serr (snd (connect cenv s))))"
    by (rule cons_inv_setupSubscriptions)
  from onModuleInit_cases [of cenv serr s] 1 2 show ?thesis by metis
qed

lemma shell_reconnect_failed [simp]: "shell q (reconnect_failed s) = shell q s"
  by (simp add: shell_def reconnect_failed_def deletions_def log_msg_def)

lemma reconnect_cases:
  "reconnect att s = reconnect_failed (snd (connect (att_connect att) (cleanup (att_cleanup att) s)))
   \<or> reconnect att s = reconnect_failed (snd (setupSubscriptions (att_subscribe att)
         (snd (connect (att_connect att) (cleanup (att_cleanup att) s)))))
   \<or> reconnect att s = snd (setupSubscriptions (att_subscribe att)
         (snd (connect (att_connect att) (cleanup (att_cleanup att) s))))"
proof -
  obtain r1 s2 where c: "connect (att_connect att) (cleanup (att_cleanup att) s) = (r1, s2)"
    by (cases "connect (att_connect att) (cleanup (att_cleanup att) s)")
  obtain r2 s3 where u: "setupSubscriptions (att_subscribe att) s2 = (r2, s3)"
    by (cases "setupSubscriptions (att_subscribe att) s2")
  show ?thesis using c u by (simp add: reconnect_def Let_def split: option.splits)
qed

lemma deletions_reconnect_failed [simp]: "deletions q (reconnect_failed s) = deletions q s"
  using shell_reconnect_failed [of q s] by (simp add: shell_def)

lemma cons_inv_reconnect_failed: "cons_inv co s \<Longrightarrow> cons_inv co (reconnect_failed s)"
  using consumers_of_shell [OF shell_reconnect_failed] by (rule cons_inv_eq)

lemma deletions_reconnect [simp]: "deletions q (reconnect att s) = deletions q s"
proof -
  let ?s2 = "snd (connect (att_connect att) (cleanup (att_cleanup att) s))"
  let ?s3 = "snd (setupSubscriptions (att_subscribe att) ?s2)"
  have "deletions q ?s2 = deletions q s" "deletions q ?s3 = deletions q s"
    "deletions q (reconnect_failed ?s2) = deletions q s"
    "deletions q (reconnect_failed ?s3) = deletions q s"
    by simp_all
  with reconnect_cases [of att s] show ?thesis by metis
qed

lemma cons_inv_reconnect:
  assumes "cons_inv co s"
  shows "cons_inv co (reconnect att s)"
proof -
  let ?s2 = "snd (connect (att_connect att) (cleanup (att_cleanup att) s))"
  let ?s3 = "snd (setupSubscriptions (att_subscribe att) ?s2)"
  have 2: "cons_inv co ?s2" using assms by (intro cons_inv_connect cons_inv_cleanup)
  then have 3: "cons_inv co ?s3" by (rule cons_inv_setupSubscriptions)
  from 2 have 4: "cons_inv co (reconnect_failed ?s2)" by (rule cons_inv_reconnect_failed)
  from 3 have 5: "cons_inv co (reconnect_failed ?s3)" by (rule cons_inv_reconnect_failed)
  from reconnect_cases [of att s] 3 4 5 show ?thesis by metis
qed

lemma deletions_on_close [simp]: "deletions q (on_close att s) = deletions q s"
  by (simp add: on_close_def)

lemma cons_inv_on_close: "cons_inv co s \<Longrightarrow> cons_inv co (on_close att s)"
  unfolding on_close_def
  by (rule cons_inv_reconnect) (erule cons_inv_eq [rotated], simp)

lemma deletions_retries_update [simp]: "deletions q (s\<lparr>retries_scheduled := n\<rparr>) = deletions q s"
  by (simp add: deletions_def)

lemma deletions_fire_retry [simp]: "deletions q (fire_retry att s) = deletions q s"
  by (simp add: fire_retry_def split: nat.splits)

lemma cons_inv_fire_retry: "cons_inv co s \<Longrightarrow> cons_inv co (fire_retry att s)"
proof (cases "retries_scheduled s")
  case 0
  then show "cons_inv co s \<Longrightarrow> ?thesis" by (simp add: fire_retry_def)
next
  case (Suc n)
  assume "cons_inv co s"
  then have "cons_inv co (s\<lparr>retries_scheduled := n\<rparr>)" by (rule cons_inv_eq [rotated]) simp
  then have "cons_inv co (reconnect att (s\<lparr>retries_scheduled := n\<rparr>))" by (rule cons_inv_reconnect)
  with Suc show ?thesis by (simp add: fire_retry_def)
qed

lemma fired_core: "core s' = core s \<Longrightarrow> fired c s' = fired c s"
  by (simp add: core_def fired_def)

lemma oplog_publishWithResponse:
  "oplog (snd (publishWithResponse env ex rk msg t s)) = oplog s @
    (case channel s of None \<Rightarrow> []
     | Some ch \<Rightarrow> (case assertQueue_err env of
         Some e \<Rightarrow> [AssertQueue (replyTo_of (uuid env)) Exclusive_AutoDelete, DeleteQueue (replyTo_of (uuid env))]
       | None \<Rightarrow> [AssertQueue (replyTo_of (uuid env)) Exclusive_AutoDelete, Consume (replyTo_of (uuid env)) True,
                  Publish ex rk msg (Some (uuid env)) (Some (replyTo_of (uuid env)))]
                 @ (case publish_err env of None \<Rightarrow> [] | Some e \<Rightarrow> [DeleteQueue (replyTo_of (uuid env))])))"
  by (cases "consume_err env")
     (simp_all add: publishWithResponse_def Let_def catch_block_def request_def setTimeout_def
      split: option.splits)

lemma deletions_publishWithResponse:
  assumes "uuid env \<noteq> c"
  shows "deletions (replyTo_of c) (snd (publishWithResponse env ex rk msg t s)) = deletions (replyTo_of c) s"
  using assms unfolding deletions_def oplog_publishWithResponse
  by (cases "channel s"; cases "assertQueue_err env"; cases "publish_err env")
     (simp_all add: replyTo_of_inject)

lemma consumers_publishWithResponse:
  "consumers (snd (publishWithResponse env ex rk msg t s)) = consumers s
   \<or> consumers (snd (publishWithResponse env ex rk msg t s))
       = (consumers s)(replyTo_of (uuid env) \<mapsto> Reply (uuid env))"
  by (cases "channel s"; cases "assertQueue_err env"; cases "consume_err env"; cases "publish_err env")
     (simp_all add: publishWithResponse_def Let_def catch_block_def request_def setTimeout_def)

lemma cons_inv_publishWithResponse:
  assumes "cons_inv co s"
  shows "cons_inv co (snd (publishWithResponse env ex rk msg t s))"
proof -
  let ?s' = "snd (publishWithResponse env ex rk msg t s)"
  from consumers_publishWithResponse [of env ex rk msg t s] show ?thesis
  proof
    assume "consumers ?s' = consumers s"
    then show ?thesis using assms by (rule cons_inv_eq)
  next
    assume "consumers ?s' = (consumers s)(replyTo_of (uuid env) \<mapsto> Reply (uuid env))"
    with assms show ?thesis
      by (rule cons_inv_update) (simp_all add: replyTo_of_inject)
  qed
qed

lemma timers_publishWithResponse_other:
  assumes "uuid env \<noteq> c"
  shows "timers (snd (publishWithResponse env ex rk m t s)) c = timers s c"
proof (cases "channel s")
  case None
  then show ?thesis by (simp add: publishWithResponse_no_channel)
next
  case (Some ch)
  show ?thesis
  proof (cases "assertQueue_err env")
    case None
    with assms show ?thesis by (simp add: publishWithResponse_started(2) [OF Some None])
  next
    case e: (Some e)
    with assms show ?thesis by (simp add: publishWithResponse_assert_fails(2) [OF Some e])
  qed
qed

lemma fired_publishWithResponse:
  "uuid env \<noteq> c \<Longrightarrow> fired c (snd (publishWithResponse env ex rk m t s)) = fired c s"
  by (simp add: fired_def timers_publishWithResponse_other)

lemma fire_timer_armed_shell:
  assumes "timers s h = Some t" and "fate t = Armed"
  shows "oplog (fire_timer h d s) = oplog s @ [DeleteQueue (replyTo_of h)]"
    and "consumers (fire_timer h d s) = consumers s"
  using assms
  by (cases d; simp add: fire_timer_def timeout_callback_def deleteQueue_logged_def settle_def
      request_def log_msg_def Let_def)+

lemma fire_timer_count:
  "deletions (replyTo_of c) (fire_timer h d s) + fired c s
     = deletions (replyTo_of c) s + fired c (fire_timer h d s)"
proof (cases "\<exists>t. timers s h = Some t \<and> fate t = Armed")
  case False
  then have "fire_timer h d s = s" by (intro fire_timer_idle) (cases "timers s h", auto)
  then show ?thesis by simp
next
  case True
  then obtain t where t: "timers s h = Some t" "fate t = Armed" by blast
  show ?thesis
  proof (cases "h = c")
    case True
    with t have tc: "timers s c = Some t" "fate t = Armed" by simp_all
    show ?thesis unfolding True
      by (simp add: deletions_def fired_def fire_timer_armed_shell(1) [OF tc]
          fire_timer_armed(2) [OF tc] tc)
  next
    case False
    then show ?thesis
      by (simp add: deletions_def fired_def fire_timer_armed_shell(1) [OF t]
          fire_timer_armed(2) [OF t] replyTo_of_inject)
  qed
qed

lemma cons_inv_fire_timer: "cons_inv co s \<Longrightarrow> cons_inv co (fire_timer h d s)"
proof (cases "\<exists>t. timers s h = Some t \<and> fate t = Armed")
  case False
  then have "fire_timer h d s = s" by (intro fire_timer_idle) (cases "timers s h", auto)
  then show "cons_inv co s \<Longrightarrow> ?thesis" by simp
next
  case True
  then obtain t where t: "timers s h = Some t" "fate t = Armed" by blast
  assume "cons_inv co s"
  with fire_timer_armed_shell(2) [OF t] show ?thesis by (rule cons_inv_eq)
qed

lemma fired_clearTimeout [simp]: "fired c (clearTimeout h s) = fired c s"
  by (cases "timers s h") (auto simp: fired_def clearTimeout_def)

lemma reply_callback_shell:
  "oplog (reply_callback c msg d s) = oplog s @
     (if \<exists>m. msg = Some m \<and> correlationId m = Some c \<and> content m \<noteq> None
      then [DeleteQueue (replyTo_of c)] else [])"
  "consumers (reply_callback c msg d s) = consumers s"
proof -
  show "consumers (reply_callback c msg d s) = consumers s"
  proof (cases msg)
    case None
    then show ?thesis by (simp add: reply_callback_def)
  next
    case m: (Some m)
    show ?thesis
    proof (cases "content m")
      case None
      with m show ?thesis by (simp add: reply_callback_def)
    next
      case (Some v)
      with m show ?thesis
        by (cases "responseEmitter s c")
           (simp_all add: reply_callback_def Let_def settle_def)
    qed
  qed
  show "oplog (reply_callback c msg d s) = oplog s @
     (if \<exists>m. msg = Some m \<and> correlationId m = Some c \<and> content m \<noteq> None
      then [DeleteQueue (replyTo_of c)] else [])"
  proof (cases msg)
    case None
    then show ?thesis by (simp add: reply_callback_def)
  next
    case m: (Some m)
    show ?thesis
    proof (cases "content m")
      case None
      with m show ?thesis by (simp add: reply_callback_def)
    next
      case (Some v)
      with m show ?thesis
        by (cases "responseEmitter s c"; cases d)
           (simp_all add: reply_callback_def Let_def settle_def deleteQueue_logged_def
              request_def log_msg_def)
    qed
  qed
qed

lemma fired_reply_callback: "fired c (reply_callback c' msg d s) = fired c s"
proof (cases "\<exists>m v e. msg = Some m \<and> correlationId m = Some c' \<and> content m = Some v
              \<and> responseEmitter s c' = Some e")
  case False
  then have "core (reply_callback c' msg d s) = core s" by (rule reply_callback_miss)
  then show ?thesis by (rule fired_core)
next
  case True
  then obtain m v e where h: "msg = Some m" "correlationId m = Some c'" "content m = Some v"
    "responseEmitter s c' = Some e" by blast
  have "fired c (reply_callback c' msg d s) = fired c (clearTimeout (timer e) s)"
    by (simp add: fired_def reply_callback_hit(2) [OF h])
  then show ?thesis by simp
qed

lemma matching_replies_single:
  "matching_replies c [Deliver q msg d] =
     (if q = replyTo_of c \<and> (\<exists>m. msg = Some m \<and> correlationId m = Some c \<and> content m \<noteq> None)
      then 1 else 0)"
  by (cases msg) auto

lemma matching_replies_Cons:
  "matching_replies c (ev # evs) = matching_replies c [ev] + matching_replies c evs"
proof (cases ev)
  case (Deliver q msg d)
  then show ?thesis by (cases msg) simp_all
qed simp_all

lemma count_step:
  assumes inv: "cons_inv (Some c) s" and c: "c \<notin> set (call_ids [ev])"
  shows "deletions (replyTo_of c) (step ev s) + fired c s
         = deletions (replyTo_of c) s + matching_replies c [ev] + fired c (step ev s)"
proof (cases ev)
  case (ModuleInit cenv serr)
  then show ?thesis by (simp add: fired_core [OF core_onModuleInit])
next
  case (ModuleDestroy env)
  then show ?thesis by (simp add: fired_core [OF core_cleanup])
next
  case (Call env ex rk m t)
  with c have "uuid env \<noteq> c" by simp
  with Call show ?thesis
    by (simp add: deletions_publishWithResponse fired_publishWithResponse)
next
  case (Send err ex rk m)
  then show ?thesis
    by (simp add: fired_core [OF core_publish] deletions_of_shell [OF shell_publish])
next
  case (Deliver q msg d)
  from inv have own: "consumers s (replyTo_of c) = Some (Reply c)"
    and r: "\<And>q k. consumers s q = Some (Reply k) \<Longrightarrow> q = replyTo_of k"
    by (simp_all add: cons_inv_def reply_consumers_ok_def)
  show ?thesis
  proof (cases "consumers s q")
    case None
    with own have "q \<noteq> replyTo_of c" by auto
    with None Deliver show ?thesis by (simp add: matching_replies_single)
  next
    case (Some k)
    show ?thesis
    proof (cases k)
      case (Subscription q' h)
      with Some own have "q \<noteq> replyTo_of c" by auto
      with Some Subscription Deliver show ?thesis
        by (simp add: matching_replies_single fired_core [OF core_on_message]
            deletions_of_shell [OF shell_on_message])
    next
      case (Reply c')
      with Some have q: "q = replyTo_of c'" by (intro r) simp
      from Some Reply Deliver have st: "step ev s = reply_callback c' msg d s" by simp
      have "deletions (replyTo_of c) (reply_callback c' msg d s) + fired c s
          = deletions (replyTo_of c) s + matching_replies c [Deliver (replyTo_of c') msg d]
            + fired c (reply_callback c' msg d s)"
        by (auto simp add: matching_replies_single fired_reply_callback deletions_def
            reply_callback_shell(1) replyTo_of_inject)
      then show ?thesis unfolding st unfolding Deliver q .
    qed
  qed
next
  case (TimerDue h d)
  then show ?thesis using fire_timer_count [of c h d s] by simp
next
  case (ConnectionClosed att)
  then show ?thesis by (simp add: fired_core [OF core_on_close])
next
  case (RetryDue att)
  then show ?thesis by (simp add: fired_core [OF core_fire_retry])
qed

lemma cons_inv_step: "cons_inv co s \<Longrightarrow> cons_inv co (step ev s)"
proof (cases ev)
  case (Deliver q msg d)
  assume inv: "cons_inv co s"
  show ?thesis
  proof (cases "consumers s q")
    case None
    with Deliver inv show ?thesis by simp
  next
    case (Some k)
    show ?thesis
    proof (cases k)
      case (Reply c')
      have "consumers (reply_callback c' msg d s) = consumers s" by (rule reply_callback_shell(2))
      then have "cons_inv co (reply_callback c' msg d s)" using inv by (rule cons_inv_eq)
      with Some Reply Deliver show ?thesis by simp
    next
      case (Subscription q' h)
      have "consumers (on_message q' h msg d s) = consumers s"
        by (rule consumers_of_shell [OF shell_on_message])
      then have "cons_inv co (on_message q' h msg d s)" using inv by (rule cons_inv_eq)
      with Some Subscription Deliver show ?thesis by simp
    qed
  qed
next
  case (Send err ex rk m)
  assume inv: "cons_inv co s"
  have "consumers (snd (publish err ex rk m s)) = consumers s"
    by (rule consumers_of_shell [OF shell_publish])
  then have "cons_inv co (snd (publish err ex rk m s))" using inv by (rule cons_inv_eq)
  with Send show ?thesis by simp
qed (simp_all add: cons_inv_onModuleInit cons_inv_cleanup cons_inv_publishWithResponse
      cons_inv_fire_timer cons_inv_on_close cons_inv_fire_retry)

lemma cons_inv_run: "cons_inv co s \<Longrightarrow> cons_inv co (run s evs)"
  by (induction evs arbitrary: s) (simp_all add: cons_inv_step)

lemma cons_inv_initial: "cons_inv None initial"
  by (simp add: cons_inv_def reply_consumers_ok_def initial_def)

lemma count_run:
  assumes "cons_inv (Some c) s" and "c \<notin> set (call_ids evs)"
  shows "deletions (replyTo_of c) (run s evs) + fired c s
         = deletions (replyTo_of c) s + matching_replies c evs + fired c (run s evs)"
  using assms
proof (induction evs arbitrary: s)
  case Nil
  then show ?case by simp
next
  case (Cons ev evs)
  have ids: "call_ids (ev # evs) = call_ids [ev] @ call_ids evs" by (rule call_ids_Cons)
  with Cons.prems(2) have 1: "c \<notin> set (call_ids [ev])" and 2: "c \<notin> set (call_ids evs)"
    by simp_all
  from Cons.prems(1) have 3: "cons_inv (Some c) (step ev s)" by (rule cons_inv_step)
  from count_step [OF Cons.prems(1) 1] Cons.IH [OF 3 2]
  show ?case
    using matching_replies_Cons [of c ev evs] by simp
qed

lemma count_from_call:
  assumes "channel (run initial pre) = Some ch"
    and "uuid env = c" and "assertQueue_err env = None" and "consume_err env = None"
    and "publish_err env = None"
    and "c \<notin> set (call_ids evs)"
  shows "deletions (replyTo_of c) (run initial (pre @ Call env ex rk msg t # evs))
         = deletions (replyTo_of c) (run initial pre) + matching_replies c evs
           + fired c (run initial (pre @ Call env ex rk msg t # evs))"
proof -
  let ?s0 = "run initial pre"
  let ?s1 = "snd (publishWithResponse env ex rk msg t ?s0)"
  have r: "run initial (pre @ Call env ex rk msg t # evs) = run ?s1 evs"
    by (simp add: run_append)
  have "cons_inv None ?s0" using cons_inv_initial by (rule cons_inv_run)
  then have "cons_inv None ?s1" by (rule cons_inv_publishWithResponse)
  moreover have "consumers ?s1 (replyTo_of c) = Some (Reply c)"
    using assms(1-5)
    by (simp add: publishWithResponse_def Let_def request_def setTimeout_def)
  ultimately have inv: "cons_inv (Some c) ?s1" by (simp add: cons_inv_def)
  have "timers ?s1 c = Some \<lparr>delay = timer_delay (timeout_or_default t), fate = Armed\<rparr>"
    using publishWithResponse_started(2) [OF assms(1,3), of ex rk msg t] assms(2) by simp
  then have f: "fired c ?s1 = 0" by (simp add: fired_def)
  have d: "deletions (replyTo_of c) ?s1 = deletions (replyTo_of c) ?s0"
    unfolding deletions_def oplog_publishWithResponse using assms(1-5) by simp
  from count_run [OF inv assms(6)] f d show ?thesis unfolding r by simp
qed

lemma promises_fire_timer_error: "promises (fire_timer h d s) = promises (fire_timer h None s)"
proof (cases "\<exists>t. timers s h = Some t \<and> fate t = Armed")
  case False
  then have i: "timers s h = None \<or> (\<exists>t. timers s h = Some t \<and> fate t \<noteq> Armed)"
    by (cases "timers s h") auto
  have "fire_timer h d s = s" "fire_timer h None s = s"
    using i by (rule fire_timer_idle)+
  then show ?thesis by simp
next
  case True
  then obtain t where t: "timers s h = Some t" "fate t = Armed" by blast
  show ?thesis by (simp add: fire_timer_armed(3) [OF t])
qed

lemma promises_reply_callback_error:
  "promises (reply_callback c msg d s) = promises (reply_callback c msg None s)"
proof (cases "\<exists>m v e. msg = Some m \<and> correlationId m = Some c \<and> content m = Some v
              \<and> responseEmitter s c = Some e")
  case False
  then have "core (reply_callback c msg d s) = core s" "core (reply_callback c msg None s) = core s"
    by (rule reply_callback_miss)+
  then show ?thesis by (simp add: core_def)
next
  case True
  then obtain m v e where h: "msg = Some m" "correlationId m = Some c" "content m = Some v"
    "responseEmitter s c = Some e" by blast
  show ?thesis by (simp add: reply_callback_hit(3) [OF h])
qed

lemma promises_on_message: "promises (on_message q h msg cerr s) = promises s"
  using core_on_message [of q h msg cerr s] by (simp add: core_def)

lemma at_of_consumers: "consumers s' = consumers s \<Longrightarrow> consumers s' q = consumers s q"
  by simp

lemma at_subscribe:
  "q' \<noteq> q \<Longrightarrow> consumers (snd (subscribe err q' h s)) q = consumers s q"
  using consumers_subscribe [of err q' h s] by auto

lemma at_setupSubscriptions:
  "consumers (snd (setupSubscriptions err s)) (replyTo_of c) = consumers s (replyTo_of c)"
  unfolding setupSubscriptions_def by (rule at_subscribe) (simp add: replyTo_of_not_inventory)

lemma at_connect: "consumers (snd (connect cenv s)) = consumers s"
  by (rule consumers_of_shell [OF shell_connect])

lemma at_cleanup: "consumers (cleanup env s) = consumers s"
  by (rule consumers_of_shell [OF shell_cleanup])

lemma at_reconnect_failed: "consumers (reconnect_failed s) = consumers s"
  by (rule consumers_of_shell [OF shell_reconnect_failed])

lemma at_onModuleInit:
  "consumers (snd (onModuleInit cenv serr s)) (replyTo_of c) = consumers s (replyTo_of c)"
proof -
  have 1: "consumers (snd (connect cenv s)) (replyTo_of c) = consumers s (replyTo_of c)"
    by (simp add: at_connect)
  have 2: "consumers (snd (setupSubscriptions serr (snd (connect cenv s)))) (replyTo_of c)
      = consumers s (replyTo_of c)"
    by (simp add: at_setupSubscriptions at_connect)
  from onModuleInit_cases [of cenv serr s] 1 2 show ?thesis by metis
qed

lemma at_reconnect: "consumers (reconnect att s) (replyTo_of c) = consumers s (replyTo_of c)"
proof -
  let ?s2 = "snd (connect (att_connect att) (cleanup (att_cleanup att) s))"
  let ?s3 = "snd (setupSubscriptions (att_subscribe att) ?s2)"
  have 2: "consumers ?s2 (replyTo_of c) = consumers s (replyTo_of c)"
    by (simp add: at_connect at_cleanup)
  have 3: "consumers ?s3 (replyTo_of c) = consumers s (replyTo_of c)"
    by (simp add: at_setupSubscriptions at_connect at_cleanup)
  have 4: "consumers (reconnect_failed ?s2) (replyTo_of c) = consumers s (replyTo_of c)"
    by (simp add: at_reconnect_failed at_connect at_cleanup)
  have 5: "consumers (reconnect_failed ?s3) (replyTo_of c) = consumers s (replyTo_of c)"
    by (simp add: at_reconnect_failed at_setupSubscriptions at_connect at_cleanup)
  from reconnect_cases [of att s] 3 4 5 show ?thesis by metis
qed

lemma at_on_close: "consumers (on_close att s) (replyTo_of c) = consumers s (replyTo_of c)"
  by (simp add: on_close_def at_reconnect)

lemma at_fire_retry: "consumers (fire_retry att s) (replyTo_of c) = consumers s (replyTo_of c)"
  by (cases "retries_scheduled s") (simp_all add: fire_retry_def at_reconnect)

lemma at_fire_timer: "consumers (fire_timer h d s) = consumers s"
proof (cases "\<exists>t. timers s h = Some t \<and> fate t = Armed")
  case False
  then have "fire_timer h d s = s" by (intro fire_timer_idle) (cases "timers s h", auto)
  then show ?thesis by simp
next
  case True
  then obtain t where t: "timers s h = Some t" "fate t = Armed" by blast
  then show ?thesis by (rule fire_timer_armed_shell(2))
qed

lemma at_publishWithResponse:
  "uuid env \<noteq> c \<Longrightarrow>
   consumers (snd (publishWithResponse env ex rk m t s)) (replyTo_of c) = consumers s (replyTo_of c)"
  using consumers_publishWithResponse [of env ex rk m t s]
  by (auto simp: replyTo_of_inject)

lemma own_core:
  assumes "core s' = core s" and "consumers s' (replyTo_of c) = consumers s (replyTo_of c)"
  shows "own c s' = own c s"
proof -
  from assms(1) have "responseEmitter s' = responseEmitter s" "timers s' = timers s"
    "promises s' = promises s" by (simp_all add: core_def)
  with assms(2) show ?thesis unfolding own_def by (simp only:)
qed

lemma own_fire_timer:
  assumes "h \<noteq> c"
  shows "own c (fire_timer h d s) = own c s"
proof (cases "\<exists>t. timers s h = Some t \<and> fate t = Armed")
  case False
  then have "fire_timer h d s = s" by (intro fire_timer_idle) (cases "timers s h", auto)
  then show ?thesis by simp
next
  case True
  then obtain t where t: "timers s h = Some t" "fate t = Armed" by blast
  with assms show ?thesis
    by (simp add: own_def fire_timer_armed [OF t] fire_timer_armed_shell(2) [OF t])
qed

lemma own_reply_callback:
  assumes "c' \<noteq> c" and "call_ok s c'"
  shows "own c (reply_callback c' msg d s) = own c s"
proof (cases "\<exists>m v e. msg = Some m \<and> correlationId m = Some c' \<and> content m = Some v
              \<and> responseEmitter s c' = Some e")
  case False
  then have "core (reply_callback c' msg d s) = core s" by (rule reply_callback_miss)
  then show ?thesis by (rule own_core) (simp add: reply_callback_shell(2))
next
  case True
  then obtain m v e where h: "msg = Some m" "correlationId m = Some c'" "content m = Some v"
    "responseEmitter s c' = Some e" by blast
  from call_ok_entry [OF assms(2) h(4)] obtain t where
    e: "timer e = c'" and t: "timers s c' = Some t" "fate t = Armed" by blast
  have tm: "timers (reply_callback c' msg d s) = (timers s)(c' \<mapsto> t\<lparr>fate := Cleared\<rparr>)"
    by (simp add: reply_callback_hit(2) [OF h] e clearTimeout_def t)
  from assms(1) show ?thesis
    by (simp add: own_def reply_callback_hit(1,3) [OF h] tm reply_callback_shell(2))
qed

lemma own_publishWithResponse:
  assumes "uuid env \<noteq> c"
  shows "own c (snd (publishWithResponse env ex rk m t s)) = own c s"
proof (cases "channel s")
  case None
  then show ?thesis by (simp add: publishWithResponse_no_channel)
next
  case (Some ch)
  show ?thesis
  proof (cases "assertQueue_err env")
    case None
    with assms show ?thesis
      by (simp add: own_def publishWithResponse_started [OF Some None] at_publishWithResponse)
  next
    case e: (Some e)
    with assms show ?thesis
      by (simp add: own_def publishWithResponse_assert_fails [OF Some e] at_publishWithResponse)
  qed
qed

lemma own_step:
  assumes ok: "\<And>c'. call_ok s c'" and rc: "reply_consumers_ok s" and nt: "\<not> touches c ev"
  shows "own c (step ev s) = own c s"
proof (cases ev)
  case (ModuleInit cenv serr)
  then show ?thesis by (simp add: own_core [OF core_onModuleInit at_onModuleInit])
next
  case (ModuleDestroy env)
  then show ?thesis by (simp add: own_core [OF core_cleanup] at_cleanup)
next
  case (Call env ex rk m t)
  with nt show ?thesis by (simp add: own_publishWithResponse)
next
  case (Send err ex rk m)
  then show ?thesis
    by (simp add: own_core [OF core_publish] consumers_of_shell [OF shell_publish])
next
  case (Deliver q msg d)
  with nt have q: "q \<noteq> replyTo_of c" by simp
  show ?thesis
  proof (cases "consumers s q")
    case None
    with Deliver show ?thesis by simp
  next
    case (Some k)
    show ?thesis
    proof (cases k)
      case (Reply c')
      with Some rc have "q = replyTo_of c'" by (simp add: reply_consumers_ok_def)
      with q have "c' \<noteq> c" by auto
      then have "own c (reply_callback c' msg d s) = own c s"
        using ok by (rule own_reply_callback)
      with Deliver Some Reply show ?thesis by simp
    next
      case (Subscription q' h)
      with Deliver Some show ?thesis
        by (simp add: own_core [OF core_on_message] consumers_of_shell [OF shell_on_message])
    qed
  qed
next
  case (TimerDue h d)
  with nt show ?thesis by (simp add: own_fire_timer)
next
  case (ConnectionClosed att)
  then show ?thesis by (simp add: own_core [OF core_on_close at_on_close])
next
  case (RetryDue att)
  then show ?thesis by (simp add: own_core [OF core_fire_retry at_fire_retry])
qed

lemma reachable_consumers_ok: "reply_consumers_ok (run initial evs)"
proof -
  have "cons_inv None (run initial evs)" using cons_inv_initial by (rule cons_inv_run)
  then show ?thesis by (simp add: cons_inv_def)
qed

lemma own_run:
  assumes "distinct (call_ids (evs0 @ evs))" and "\<forall>ev\<in>set evs. \<not> touches c ev"
  shows "own c (run initial (evs0 @ evs)) = own c (run initial evs0)"
  using assms
proof (induction evs rule: rev_induct)
  case Nil
  then show ?case by simp
next
  case (snoc ev evs)
  from snoc.prems(1) have d: "distinct (call_ids (evs0 @ evs))"
    by (auto simp add: call_ids_append)
  from snoc.prems(2) have n: "\<forall>ev\<in>set evs. \<not> touches c ev" and nt: "\<not> touches c ev"
    by simp_all
  have ih: "own c (run initial (evs0 @ evs)) = own c (run initial evs0)"
    using d n by (rule snoc.IH)
  have "own c (step ev (run initial (evs0 @ evs))) = own c (run initial (evs0 @ evs))"
  proof (rule own_step)
    fix c'
    show "call_ok (run initial (evs0 @ evs)) c'" using d by (rule reachable_ok)
  next
    show "reply_consumers_ok (run initial (evs0 @ evs))" by (rule reachable_consumers_ok)
  next
    show "\<not> touches c ev" by (rule nt)
  qed
  moreover have "run initial (evs0 @ evs @ [ev]) = step ev (run initial (evs0 @ evs))"
    using run_append [of initial "evs0 @ evs" "[ev]"] by simp
  ultimately show ?case using ih by simp
qed

lemmas eval_defs = run_defs timer_delay_def log_lines_def stock_update_handler_def

lemma oplog_on_message:
  "oplog (on_message q h (Some m) cerr s) = oplog s @ delivery_requests h m cerr"
  by (simp add: on_message_def delivery_requests_def request_def log_msg_def log_lines_def Let_def
      split: option.splits prod.splits)

lemma deliveries_subscription:
  assumes "consumers s q = Some (Subscription q h)"
  shows "oplog (run s (map (\<lambda>(m, cerr). Deliver q (Some m) cerr) ds))
           = oplog s @ concat (map (\<lambda>(m, cerr). delivery_requests h m cerr) ds)
       \<and> consumers (run s (map (\<lambda>(m, cerr). Deliver q (Some m) cerr) ds)) q
           = Some (Subscription q h)"
  using assms
proof (induction ds arbitrary: s)
  case Nil
  then show ?case by simp
next
  case (Cons x ds)
  obtain m cerr where x: "x = (m, cerr)" by (cases x)
  have "consumers (on_message q h (Some m) cerr s) = consumers s"
    by (rule consumers_of_shell [OF shell_on_message])
  with Cons.prems have c: "consumers (on_message q h (Some m) cerr s) q = Some (Subscription q h)"
    by simp
  from Cons.IH [OF c] Cons.prems show ?case
    by (simp add: x oplog_on_message)
qed

subsection \<open>One terminal event per call\<close>

text \<open>
  C1. In every run of the service in which the calls draw distinct correlation ids, at most
  one terminal event (a resolution by a reply, or the timeout rejection) is ever applied to a
  call; once one has been applied the registry holds no entry for the call; and whatever
  comes later in the run (a late or duplicate reply among it), the terminal events of the
  call and the state of its promise stay that first event.
\<close>

theorem C1_single_terminal_event:
  assumes "distinct (call_ids (evs @ evs'))"
  shows "length (terminal_events c (run initial evs)) \<le> 1
       \<and> (terminal_events c (run initial evs) \<noteq> [] \<longrightarrow> responseEmitter (run initial evs) c = None)
       \<and> (\<forall>v. terminal_events c (run initial evs) = [v] \<longrightarrow>
              terminal_events c (run initial (evs @ evs')) = [v]
              \<and> promises (run initial (evs @ evs')) c = Some v)"
proof -
  let ?s = "run initial evs" and ?s' = "run initial (evs @ evs')"
  from assms have "distinct (call_ids evs)" by (simp add: call_ids_append)
  then have ok: "call_ok ?s c" by (rule reachable_ok)
  from assms have ok': "call_ok ?s' c" by (rule reachable_ok)
  have later: "terminal_events c ?s' = [v] \<and> promises ?s' c = Some v"
    if v: "terminal_events c ?s = [v]" for v
  proof -
    from terminal_events_run [of c ?s evs'] obtain ys where
      "terminal_events c ?s' = terminal_events c ?s @ ys" by (auto simp: run_append)
    with v have "terminal_events c ?s' = v # ys" by simp
    moreover have "length (terminal_events c ?s') \<le> 1" using ok' by (rule call_ok_terminal(1))
    ultimately have "terminal_events c ?s' = [v]" by simp
    with call_ok_terminal(3) [OF ok'] show ?thesis by simp
  qed
  show ?thesis
    using call_ok_terminal(1) [OF ok] call_ok_terminal(2) [OF ok] later by blast
qed

theorem C1_single_terminal_event_witness:
  "distinct (call_ids ([ModuleInit (ConnectOk 1 1) None, Call \<lparr>uuid = ''c1'', assertQueue_err = None, consume_err = None, publish_err = None, deleteQueue_err = None\<rparr> ''inventory.exchange'' ''inventory.stock.check'' ''{}'' (Some (Num 0)),
        TimerDue ''c1'' None] @ [Deliver ''response.c1'' (Some \<lparr>correlationId = Some ''c1'', content = Some ''r1''\<rparr>) None]))
   \<and> terminal_events ''c1'' (run initial [ModuleInit (ConnectOk 1 1) None,
        Call \<lparr>uuid = ''c1'', assertQueue_err = None, consume_err = None, publish_err = None, deleteQueue_err = None\<rparr> ''inventory.exchange'' ''inventory.stock.check'' ''{}'' (Some (Num 0)), TimerDue ''c1'' None])
       = [Rejected (Error ''Request timeout'')]
   \<and> responseEmitter (run initial [ModuleInit (ConnectOk 1 1) None,
        Call \<lparr>uuid = ''c1'', assertQueue_err = None, consume_err = None, publish_err = None, deleteQueue_err = None\<rparr> ''inventory.exchange'' ''inventory.stock.check'' ''{}'' (Some (Num 0)), TimerDue ''c1'' None]) ''c1'' = None
   \<and> terminal_events ''c1'' (run initial ([ModuleInit (ConnectOk 1 1) None,
        Call \<lparr>uuid = ''c1'', assertQueue_err = None, consume_err = None, publish_err = None, deleteQueue_err = None\<rparr> ''inventory.exchange'' ''inventory.stock.check'' ''{}'' (Some (Num 0)), TimerDue ''c1'' None]
        @ [Deliver ''response.c1'' (Some \<lparr>correlationId = Some ''c1'', content = Some ''r1''\<rparr>) None]))
       = [Rejected (Error ''Request timeout'')]
   \<and> promises (run initial ([ModuleInit (ConnectOk 1 1) None,
        Call \<lparr>uuid = ''c1'', assertQueue_err = None, consume_err = None, publish_err = None, deleteQueue_err = None\<rparr> ''inventory.exchange'' ''inventory.stock.check'' ''{}'' (Some (Num 0)), TimerDue ''c1'' None]
        @ [Deliver ''response.c1'' (Some \<lparr>correlationId = Some ''c1'', content = Some ''r1''\<rparr>) None])) ''c1''
       = Some (Rejected (Error ''Request timeout''))"
proof -
  let ?evs = "[ModuleInit (ConnectOk 1 1) None,
        Call \<lparr>uuid = ''c1'', assertQueue_err = None, consume_err = None, publish_err = None, deleteQueue_err = None\<rparr> ''inventory.exchange'' ''inventory.stock.check'' ''{}'' (Some (Num 0)), TimerDue ''c1'' None]"
  let ?evs' = "[Deliver ''response.c1'' (Some \<lparr>correlationId = Some ''c1'', content = Some ''r1''\<rparr>) None]"
  have d: "distinct (call_ids (?evs @ ?evs'))" by simp
  have t: "terminal_events ''c1'' (run initial ?evs) = [Rejected (Error ''Request timeout'')]"
    by (simp add: run_defs)
  from C1_single_terminal_event [OF d, of "''c1''"] d t show ?thesis by simp
qed

subsection \<open>Connection loss\<close>

text \<open>
  C2, as the code has it. The handler of the connection's \<open>close\<close> event reconnects and
  touches neither the registry nor the timers nor any promise: no pending call is rejected by
  the loss of the connection, and every pending call stays registered and pending until its
  reply or its own timer.
\<close>

theorem C2_connection_loss_keeps_pending_calls:
  "responseEmitter (step (ConnectionClosed att) s) = responseEmitter s
   \<and> timers (step (ConnectionClosed att) s) = timers s
   \<and> promises (step (ConnectionClosed att) s) = promises s
   \<and> settlements (step (ConnectionClosed att) s) = settlements s"
  using core_on_close [of att s] by (simp add: core_def)

text \<open>
  C2 as stated fails: after the connection closes with one call outstanding (and the
  reconnect succeeds), the registry still holds the call and its promise is still pending.
\<close>

theorem C2_counterexample:
  "responseEmitter (run initial [ModuleInit (ConnectOk 1 1) None,
       Call \<lparr>uuid = ''c1'', assertQueue_err = None, consume_err = None, publish_err = None, deleteQueue_err = None\<rparr> ''inventory.exchange'' ''inventory.stock.check'' ''{}'' None,
       ConnectionClosed \<lparr>att_cleanup = \<lparr>channel_close_err = None, connection_close_err = None\<rparr>,
         att_connect = ConnectOk 2 2, att_subscribe = None\<rparr>]) \<noteq> Map.empty
   \<and> promises (run initial [ModuleInit (ConnectOk 1 1) None,
       Call \<lparr>uuid = ''c1'', assertQueue_err = None, consume_err = None, publish_err = None, deleteQueue_err = None\<rparr> ''inventory.exchange'' ''inventory.stock.check'' ''{}'' None,
       ConnectionClosed \<lparr>att_cleanup = \<lparr>channel_close_err = None, connection_close_err = None\<rparr>,
         att_connect = ConnectOk 2 2, att_subscribe = None\<rparr>]) ''c1'' = Some Pending"
proof -
  let ?s = "run initial [ModuleInit (ConnectOk 1 1) None,
       Call \<lparr>uuid = ''c1'', assertQueue_err = None, consume_err = None, publish_err = None, deleteQueue_err = None\<rparr> ''inventory.exchange'' ''inventory.stock.check'' ''{}'' None,
       ConnectionClosed \<lparr>att_cleanup = \<lparr>channel_close_err = None, connection_close_err = None\<rparr>,
         att_connect = ConnectOk 2 2, att_subscribe = None\<rparr>]"
  have r: "responseEmitter ?s ''c1'' = Some \<lparr>resolve = ''c1'', reject = ''c1'', timer = ''c1''\<rparr>"
    by (simp add: run_defs)
  have p: "promises ?s ''c1'' = Some Pending" by (simp add: run_defs)
  from r have "responseEmitter ?s \<noteq> Map.empty" by (metis option.distinct(1))
  with p show ?thesis by simp
qed

subsection \<open>Deletion of the reply queue\<close>




subsection \<open>Publish and the reply consumer\<close>

text \<open>
  C4 at a call whose \<open>consume\<close> request the broker refuses while the publish goes
  through. The promise that \<open>channel.consume\<close> returns is neither awaited nor caught,
  so the call publishes the request all the same: the channel sees the declaration, the
  consume request and the publish, no consumer is installed on the reply queue, and a reply
  delivered to that queue afterwards leaves the call pending. When the broker accepts the
  consume request of the same call, the consumer is installed and the same reply resolves
  the call.
\<close>

theorem C4_publish_without_consumer:
  "issued (run initial [ModuleInit (ConnectOk 1 1) None])
     (snd (publishWithResponse \<lparr>uuid = ''c1'', assertQueue_err = None, consume_err = Some (Error ''ACCESS_REFUSED''), publish_err = None, deleteQueue_err = None\<rparr> ''inventory.exchange'' ''inventory.stock.check'' ''{}'' None
        (run initial [ModuleInit (ConnectOk 1 1) None])))
     = [AssertQueue ''response.c1'' Exclusive_AutoDelete, Consume ''response.c1'' True,
        Publish ''inventory.exchange'' ''inventory.stock.check'' ''{}'' (Some ''c1'') (Some ''response.c1'')]
   \<and> consumers (snd (publishWithResponse \<lparr>uuid = ''c1'', assertQueue_err = None, consume_err = Some (Error ''ACCESS_REFUSED''), publish_err = None, deleteQueue_err = None\<rparr> ''inventory.exchange'' ''inventory.stock.check'' ''{}'' None
        (run initial [ModuleInit (ConnectOk 1 1) None]))) ''response.c1'' = None
   \<and> promises (run initial [ModuleInit (ConnectOk 1 1) None,
        Call \<lparr>uuid = ''c1'', assertQueue_err = None, consume_err = Some (Error ''ACCESS_REFUSED''), publish_err = None, deleteQueue_err = None\<rparr> ''inventory.exchange'' ''inventory.stock.check'' ''{}'' None,
        Deliver ''response.c1'' (Some \<lparr>correlationId = Some ''c1'', content = Some ''r1''\<rparr>) None]) ''c1'' = Some Pending
   \<and> consumers (snd (publishWithResponse \<lparr>uuid = ''c1'', assertQueue_err = None, consume_err = None, publish_err = None, deleteQueue_err = None\<rparr> ''inventory.exchange'' ''inventory.stock.check'' ''{}'' None
        (run initial [ModuleInit (ConnectOk 1 1) None]))) ''response.c1'' = Some (Reply ''c1'')
   \<and> promises (run initial [ModuleInit (ConnectOk 1 1) None,
        Call \<lparr>uuid = ''c1'', assertQueue_err = None, consume_err = None, publish_err = None, deleteQueue_err = None\<rparr> ''inventory.exchange'' ''inventory.stock.check'' ''{}'' None,
        Deliver ''response.c1'' (Some \<lparr>correlationId = Some ''c1'', content = Some ''r1''\<rparr>) None]) ''c1'' = Some (Resolved ''r1'')"
proof -
  have 1: "issued (run initial [ModuleInit (ConnectOk 1 1) None])
       (snd (publishWithResponse \<lparr>uuid = ''c1'', assertQueue_err = None, consume_err = Some (Error ''ACCESS_REFUSED''), publish_err = None, deleteQueue_err = None\<rparr> ''inventory.exchange'' ''inventory.stock.check'' ''{}'' None
          (run initial [ModuleInit (ConnectOk 1 1) None])))
       = [AssertQueue ''response.c1'' Exclusive_AutoDelete, Consume ''response.c1'' True,
          Publish ''inventory.exchange'' ''inventory.stock.check'' ''{}'' (Some ''c1'') (Some ''response.c1'')]"
    unfolding issued_cases
    by (simp add: replyTo_of_def onModuleInit_def setupSubscriptions_def subscribe_def
        Let_def request_def)
  have 2: "consumers (snd (publishWithResponse \<lparr>uuid = ''c1'', assertQueue_err = None, consume_err = Some (Error ''ACCESS_REFUSED''), publish_err = None, deleteQueue_err = None\<rparr> ''inventory.exchange'' ''inventory.stock.check'' ''{}'' None
          (run initial [ModuleInit (ConnectOk 1 1) None]))) ''response.c1'' = None"
    by (simp add: eval_defs)
  have 3: "promises (run initial [ModuleInit (ConnectOk 1 1) None,
          Call \<lparr>uuid = ''c1'', assertQueue_err = None, consume_err = Some (Error ''ACCESS_REFUSED''), publish_err = None, deleteQueue_err = None\<rparr> ''inventory.exchange'' ''inventory.stock.check'' ''{}'' None,
          Deliver ''response.c1'' (Some \<lparr>correlationId = Some ''c1'', content = Some ''r1''\<rparr>) None]) ''c1'' = Some Pending"
    by (simp add: eval_defs)
  have 4: "consumers (snd (publishWithResponse \<lparr>uuid = ''c1'', assertQueue_err = None, consume_err = None, publish_err = None, deleteQueue_err = None\<rparr> ''inventory.exchange'' ''inventory.stock.check'' ''{}'' None
          (run initial [ModuleInit (ConnectOk 1 1) None]))) ''response.c1'' = Some (Reply ''c1'')"
    by (simp add: eval_defs)
  have 5: "promises (run initial [ModuleInit (ConnectOk 1 1) None,
          Call \<lparr>uuid = ''c1'', assertQueue_err = None, consume_err = None, publish_err = None, deleteQueue_err = None\<rparr> ''inventory.exchange'' ''inventory.stock.check'' ''{}'' None,
          Deliver ''response.c1'' (Some \<lparr>correlationId = Some ''c1'', content = Some ''r1''\<rparr>) None]) ''c1'' = Some (Resolved ''r1'')"
    by (simp add: eval_defs)
  show ?thesis by (intro conjI) (rule 1 2 3 4 5)+
qed

subsection \<open>Failures of the channel operations of a call\<close>

text \<open>
  C5 at the same call: \<open>consume\<close>, a channel operation before the publish, fails, and
  the call is not rejected. It returns its response promise, still pending, and the registry
  keeps the entry of the call. The two other channel operations of the call do fail fast: a
  failing publish, and a failing declaration of the reply queue, reject the call with their
  error and leave no registry entry.
\<close>

theorem C5_consume_failure_not_observed:
  "fst (publishWithResponse \<lparr>uuid = ''c1'', assertQueue_err = None, consume_err = Some (Error ''ACCESS_REFUSED''), publish_err = None, deleteQueue_err = None\<rparr> ''inventory.exchange'' ''inventory.stock.check'' ''{}'' None
        (run initial [ModuleInit (ConnectOk 1 1) None])) = Inr ''c1''
   \<and> responseEmitter (snd (publishWithResponse \<lparr>uuid = ''c1'', assertQueue_err = None, consume_err = Some (Error ''ACCESS_REFUSED''), publish_err = None, deleteQueue_err = None\<rparr> ''inventory.exchange'' ''inventory.stock.check'' ''{}'' None
        (run initial [ModuleInit (ConnectOk 1 1) None]))) ''c1''
      = Some \<lparr>resolve = ''c1'', reject = ''c1'', timer = ''c1''\<rparr>
   \<and> outcome (fst (publishWithResponse \<lparr>uuid = ''c1'', assertQueue_err = None, consume_err = Some (Error ''ACCESS_REFUSED''), publish_err = None, deleteQueue_err = None\<rparr> ''inventory.exchange'' ''inventory.stock.check'' ''{}'' None
        (run initial [ModuleInit (ConnectOk 1 1) None])))
      (snd (publishWithResponse \<lparr>uuid = ''c1'', assertQueue_err = None, consume_err = Some (Error ''ACCESS_REFUSED''), publish_err = None, deleteQueue_err = None\<rparr> ''inventory.exchange'' ''inventory.stock.check'' ''{}'' None
        (run initial [ModuleInit (ConnectOk 1 1) None]))) = Pending
   \<and> fst (publishWithResponse \<lparr>uuid = ''c1'', assertQueue_err = None, consume_err = None, publish_err = Some (Error ''Channel closed''), deleteQueue_err = None\<rparr> ''inventory.exchange'' ''inventory.stock.check'' ''{}'' None
        (run initial [ModuleInit (ConnectOk 1 1) None])) = Inl (Error ''Channel closed'')
   \<and> responseEmitter (snd (publishWithResponse \<lparr>uuid = ''c1'', assertQueue_err = None, consume_err = None, publish_err = Some (Error ''Channel closed''), deleteQueue_err = None\<rparr> ''inventory.exchange'' ''inventory.stock.check'' ''{}'' None
        (run initial [ModuleInit (ConnectOk 1 1) None]))) ''c1'' = None
   \<and> fst (publishWithResponse \<lparr>uuid = ''c1'', assertQueue_err = Some (Error ''RESOURCE_LOCKED''), consume_err = None, publish_err = None, deleteQueue_err = None\<rparr> ''inventory.exchange'' ''inventory.stock.check'' ''{}'' None
        (run initial [ModuleInit (ConnectOk 1 1) None])) = Inl (Error ''RESOURCE_LOCKED'')
   \<and> responseEmitter (snd (publishWithResponse \<lparr>uuid = ''c1'', assertQueue_err = Some (Error ''RESOURCE_LOCKED''), consume_err = None, publish_err = None, deleteQueue_err = None\<rparr> ''inventory.exchange'' ''inventory.stock.check'' ''{}'' None
        (run initial [ModuleInit (ConnectOk 1 1) None]))) ''c1'' = None"
proof -
  have 1: "fst (publishWithResponse \<lparr>uuid = ''c1'', assertQueue_err = None, consume_err = Some (Error ''ACCESS_REFUSED''), publish_err = None, deleteQueue_err = None\<rparr> ''inventory.exchange'' ''inventory.stock.check'' ''{}'' None
          (run initial [ModuleInit (ConnectOk 1 1) None])) = Inr ''c1''"
    by (simp add: eval_defs)
  have 2: "responseEmitter (snd (publishWithResponse \<lparr>uuid = ''c1'', assertQueue_err = None, consume_err = Some (Error ''ACCESS_REFUSED''), publish_err = None, deleteQueue_err = None\<rparr> ''inventory.exchange'' ''inventory.stock.check'' ''{}'' None
          (run initial [ModuleInit (ConnectOk 1 1) None]))) ''c1''
        = Some \<lparr>resolve = ''c1'', reject = ''c1'', timer = ''c1''\<rparr>"
    by (simp add: eval_defs)
  have 3: "outcome (fst (publishWithResponse \<lparr>uuid = ''c1'', assertQueue_err = None, consume_err = Some (Error ''ACCESS_REFUSED''), publish_err = None, deleteQueue_err = None\<rparr> ''inventory.exchange'' ''inventory.stock.check'' ''{}'' None
          (run initial [ModuleInit (ConnectOk 1 1) None])))
        (snd (publishWithResponse \<lparr>uuid = ''c1'', assertQueue_err = None, consume_err = Some (Error ''ACCESS_REFUSED''), publish_err = None, deleteQueue_err = None\<rparr> ''inventory.exchange'' ''inventory.stock.check'' ''{}'' None
          (run initial [ModuleInit (ConnectOk 1 1) None]))) = Pending"
    by (simp add: eval_defs outcome_def)
  have 4: "fst (publishWithResponse \<lparr>uuid = ''c1'', assertQueue_err = None, consume_err = None, publish_err = Some (Error ''Channel closed''), deleteQueue_err = None\<rparr> ''inventory.exchange'' ''inventory.stock.check'' ''{}'' None
          (run initial [ModuleInit (ConnectOk 1 1) None])) = Inl (Error ''Channel closed'')"
    by (simp add: eval_defs)
  have 5: "responseEmitter (snd (publishWithResponse \<lparr>uuid = ''c1'', assertQueue_err = None, consume_err = None, publish_err = Some (Error ''Channel closed''), deleteQueue_err = None\<rparr> ''inventory.exchange'' ''inventory.stock.check'' ''{}'' None
          (run initial [ModuleInit (ConnectOk 1 1) None]))) ''c1'' = None"
    by (simp add: eval_defs)
  have 6: "fst (publishWithResponse \<lparr>uuid = ''c1'', assertQueue_err = Some (Error ''RESOURCE_LOCKED''), consume_err = None, publish_err = None, deleteQueue_err = None\<rparr> ''inventory.exchange'' ''inventory.stock.check'' ''{}'' None
          (run initial [ModuleInit (ConnectOk 1 1) None])) = Inl (Error ''RESOURCE_LOCKED'')"
    by (simp add: eval_defs)
  have 7: "responseEmitter (snd (publishWithResponse \<lparr>uuid = ''c1'', assertQueue_err = Some (Error ''RESOURCE_LOCKED''), consume_err = None, publish_err = None, deleteQueue_err = None\<rparr> ''inventory.exchange'' ''inventory.stock.check'' ''{}'' None
          (run initial [ModuleInit (ConnectOk 1 1) None]))) ''c1'' = None"
    by (simp add: eval_defs)
  show ?thesis by (intro conjI) (rule 1 2 3 4 5 6 7)+
qed

subsection \<open>Calls before the channel exists\<close>

text \<open>
  C6. While the channel field is undefined, \<open>publishWithResponse\<close> throws
  \<open>Error('Channel not initialized')\<close> and leaves the service as it was: no registry
  entry, no timer, no request on the channel.
\<close>

theorem C6_channel_not_initialized:
  "channel s = None \<Longrightarrow>
   publishWithResponse env ex rk msg t s = (Inl (Error ''Channel not initialized''), s)"
  by (simp add: publishWithResponse_def)

theorem C6_channel_not_initialized_witness:
  "channel (run initial [ModuleInit (ConnectFails (Error ''ECONNREFUSED'')) None]) = None
   \<and> publishWithResponse \<lparr>uuid = ''c1'', assertQueue_err = None, consume_err = None, publish_err = None, deleteQueue_err = None\<rparr> ''inventory.exchange'' ''inventory.stock.check'' ''{}'' None
        (run initial [ModuleInit (ConnectFails (Error ''ECONNREFUSED'')) None])
      = (Inl (Error ''Channel not initialized''),
         run initial [ModuleInit (ConnectFails (Error ''ECONNREFUSED'')) None])"
proof -
  have c: "channel (run initial [ModuleInit (ConnectFails (Error ''ECONNREFUSED'')) None]) = None"
    by (simp add: run_defs)
  from C6_channel_not_initialized [OF c] c show ?thesis by simp
qed

subsection \<open>Independent calls\<close>



subsection \<open>Acknowledgement of subscribed messages\<close>

text \<open>
  C8. After \<open>subscribe\<close> on an open channel, any sequence of messages delivered to
  the queue makes exactly the requests of \<open>delivery_requests\<close>, message by message, and
  the consumer is still installed afterwards. A message is acknowledged if and only if its
  body decodes and the handler completes without error; otherwise the only request made for
  it is a reject without requeue. When body and handler are fine and the channel accepts the
  acknowledgement, the acknowledgement is the only request.
\<close>

theorem C8_ack_iff_decoded_and_handled:
  assumes "channel s = Some ch"
  shows "issued (snd (subscribe None q h s))
           (run (snd (subscribe None q h s)) (map (\<lambda>(m, cerr). Deliver q (Some m) cerr) ds))
           = concat (map (\<lambda>(m, cerr). delivery_requests h m cerr) ds)
       \<and> consumers (run (snd (subscribe None q h s))
             (map (\<lambda>(m, cerr). Deliver q (Some m) cerr) ds)) q
           = Some (Subscription q h)
       \<and> (Ack m \<in> set (delivery_requests h m cerr)
            \<longleftrightarrow> (\<exists>decoded. content m = Some decoded \<and> snd (h decoded m) = None))
       \<and> (\<not> (\<exists>decoded. content m = Some decoded \<and> snd (h decoded m) = None)
            \<longrightarrow> delivery_requests h m cerr = [Nack m False False])
       \<and> ((\<exists>decoded. content m = Some decoded \<and> snd (h decoded m) = None)
            \<longrightarrow> delivery_requests h m None = [Ack m])"
proof -
  let ?s1 = "snd (subscribe None q h s)"
  from assms have "consumers ?s1 q = Some (Subscription q h)"
    by (simp add: subscribe_def Let_def)
  from deliveries_subscription [OF this, of ds]
  have 1: "issued ?s1 (run ?s1 (map (\<lambda>(m, cerr). Deliver q (Some m) cerr) ds))
           = concat (map (\<lambda>(m, cerr). delivery_requests h m cerr) ds)"
    and 2: "consumers (run ?s1 (map (\<lambda>(m, cerr). Deliver q (Some m) cerr) ds)) q
           = Some (Subscription q h)"
    by (simp_all add: issued_def)
  have 3: "Ack m \<in> set (delivery_requests h m cerr)
            \<longleftrightarrow> (\<exists>decoded. content m = Some decoded \<and> snd (h decoded m) = None)"
    by (cases "content m"; cases cerr) (simp_all add: delivery_requests_def)
  have 4: "\<not> (\<exists>decoded. content m = Some decoded \<and> snd (h decoded m) = None)
            \<longrightarrow> delivery_requests h m cerr = [Nack m False False]"
    by (cases "content m") (simp_all add: delivery_requests_def)
  have 5: "(\<exists>decoded. content m = Some decoded \<and> snd (h decoded m) = None)
            \<longrightarrow> delivery_requests h m None = [Ack m]"
    by (cases "content m") (auto simp add: delivery_requests_def)
  show ?thesis by (intro conjI) (rule 1 2 3 4 5)+
qed

text \<open>
  An instance: four messages, the second with a body that does not decode and the third one
  that makes the handler fail; the first and the last are acknowledged.
\<close>

theorem C8_ack_iff_decoded_and_handled_witness:
  "channel (run initial [ModuleInit (ConnectOk 1 1) None]) = Some 1
   \<and> issued (snd (subscribe None ''inventory.updates''
          (\<lambda>j m. ([], if j = ''poison'' then Some (Error ''handler failed'') else None))
          (run initial [ModuleInit (ConnectOk 1 1) None])))
        (run (snd (subscribe None ''inventory.updates''
          (\<lambda>j m. ([], if j = ''poison'' then Some (Error ''handler failed'') else None))
          (run initial [ModuleInit (ConnectOk 1 1) None])))
          (map (\<lambda>(m, cerr). Deliver ''inventory.updates'' (Some m) cerr)
             [(\<lparr>correlationId = None, content = Some ''first''\<rparr>, None),
              (\<lparr>correlationId = None, content = None\<rparr>, None),
              (\<lparr>correlationId = None, content = Some ''poison''\<rparr>, None),
              (\<lparr>correlationId = None, content = Some ''last''\<rparr>, None)]))
       = [Ack \<lparr>correlationId = None, content = Some ''first''\<rparr>,
          Nack \<lparr>correlationId = None, content = None\<rparr> False False,
          Nack \<lparr>correlationId = None, content = Some ''poison''\<rparr> False False,
          Ack \<lparr>correlationId = None, content = Some ''last''\<rparr>]"
proof -
  let ?h = "\<lambda>(j::json) (m::amqp_msg). ([]::string list, if j = ''poison'' then Some (Error ''handler failed'') else None)"
  let ?ds = "[(\<lparr>correlationId = None, content = Some ''first''\<rparr>, None::error option),
              (\<lparr>correlationId = None, content = None\<rparr>, None),
              (\<lparr>correlationId = None, content = Some ''poison''\<rparr>, None),
              (\<lparr>correlationId = None, content = Some ''last''\<rparr>, None)]"
  have c: "channel (run initial [ModuleInit (ConnectOk 1 1) None]) = Some 1" by (simp add: eval_defs)
  have v: "concat (map (\<lambda>(m, cerr). delivery_requests ?h m cerr) ?ds)
       = [Ack \<lparr>correlationId = None, content = Some ''first''\<rparr>,
          Nack \<lparr>correlationId = None, content = None\<rparr> False False,
          Nack \<lparr>correlationId = None, content = Some ''poison''\<rparr> False False,
          Ack \<lparr>correlationId = None, content = Some ''last''\<rparr>]"
    by (simp add: delivery_requests_def)
  from C8_ack_iff_decoded_and_handled [OF c, where q = "''inventory.updates''" and h = ?h and ds = ?ds]
  have "issued (snd (subscribe None ''inventory.updates'' ?h (run initial [ModuleInit (ConnectOk 1 1) None])))
        (run (snd (subscribe None ''inventory.updates'' ?h (run initial [ModuleInit (ConnectOk 1 1) None])))
          (map (\<lambda>(m, cerr). Deliver ''inventory.updates'' (Some m) cerr) ?ds))
       = concat (map (\<lambda>(m, cerr). delivery_requests ?h m cerr) ?ds)"
    by (rule conjunct1)
  then have "issued (snd (subscribe None ''inventory.updates'' ?h (run initial [ModuleInit (ConnectOk 1 1) None])))
        (run (snd (subscribe None ''inventory.updates'' ?h (run initial [ModuleInit (ConnectOk 1 1) None])))
          (map (\<lambda>(m, cerr). Deliver ''inventory.updates'' (Some m) cerr) ?ds))
       = [Ack \<lparr>correlationId = None, content = Some ''first''\<rparr>,
          Nack \<lparr>correlationId = None, content = None\<rparr> False False,
          Nack \<lparr>correlationId = None, content = Some ''poison''\<rparr> False False,
          Ack \<lparr>correlationId = None, content = Some ''last''\<rparr>]"
    unfolding v .
  with c show ?thesis by (rule conjI)
qed

subsection \<open>The deadline of a call\<close>

text \<open>
  C9, as the code and the runtime have it. On an open channel whose reply-queue declaration
  succeeds, a call without a timeout arms its timer with 30000 ms; a call with a timeout
  between 1 and 2147483647 ms arms it with that number, truncated to whole milliseconds; a
  call with any other timeout (below 1, above 2147483647, not a number or infinite) arms it
  with 1 ms. The timer is armed after the declaration of the reply queue has been answered:
  when the declaration fails, no timer is armed.
\<close>

theorem C9_timer_delay:
  assumes "channel s = Some ch"
  shows "(assertQueue_err env = None \<longrightarrow>
            timers (snd (publishWithResponse env ex rk msg None s)) (uuid env)
              = Some \<lparr>delay = 30000, fate = Armed\<rparr>)
       \<and> (assertQueue_err env = None \<and> 1 \<le> x \<and> x \<le> 2147483647 \<longrightarrow>
            timers (snd (publishWithResponse env ex rk msg (Some (Num x)) s)) (uuid env)
              = Some \<lparr>delay = \<lfloor>x\<rfloor>, fate = Armed\<rparr>)
       \<and> (assertQueue_err env = None
            \<and> (v = NaN \<or> v = PlusInfinity \<or> v = MinusInfinity
                \<or> (\<exists>y. v = Num y \<and> (y < 1 \<or> 2147483647 < y))) \<longrightarrow>
            timers (snd (publishWithResponse env ex rk msg (Some v) s)) (uuid env)
              = Some \<lparr>delay = 1, fate = Armed\<rparr>)
       \<and> (assertQueue_err env \<noteq> None \<longrightarrow>
            timers (snd (publishWithResponse env ex rk msg t s)) = timers s)"
proof (intro conjI impI)
  assume a: "assertQueue_err env = None"
  show "timers (snd (publishWithResponse env ex rk msg None s)) (uuid env)
      = Some \<lparr>delay = 30000, fate = Armed\<rparr>"
    by (simp add: publishWithResponse_started(2) [OF assms a] timeout_or_default_def
        timer_delay_def)
next
  assume "assertQueue_err env = None \<and> 1 \<le> x \<and> x \<le> 2147483647"
  then have a: "assertQueue_err env = None" and x: "1 \<le> x" "x \<le> 2147483647" by simp_all
  show "timers (snd (publishWithResponse env ex rk msg (Some (Num x)) s)) (uuid env)
      = Some \<lparr>delay = \<lfloor>x\<rfloor>, fate = Armed\<rparr>"
    using x
    by (simp add: publishWithResponse_started(2) [OF assms a] timeout_or_default_def
        timer_delay_def)
next
  assume h: "assertQueue_err env = None
            \<and> (v = NaN \<or> v = PlusInfinity \<or> v = MinusInfinity
                \<or> (\<exists>y. v = Num y \<and> (y < 1 \<or> 2147483647 < y)))"
  then have a: "assertQueue_err env = None" by simp
  from h have "timer_delay v = 1" by (auto simp: timer_delay_def)
  then show "timers (snd (publishWithResponse env ex rk msg (Some v) s)) (uuid env)
      = Some \<lparr>delay = 1, fate = Armed\<rparr>"
    by (simp add: publishWithResponse_started(2) [OF assms a] timeout_or_default_def)
next
  assume "assertQueue_err env \<noteq> None"
  then obtain e where e: "assertQueue_err env = Some e" by auto
  show "timers (snd (publishWithResponse env ex rk msg t s)) = timers s"
    by (rule publishWithResponse_assert_fails(2) [OF assms e])
qed

text \<open>
  An instance: a call with a timeout of 5000 ms on a fresh channel.
\<close>

theorem C9_timer_delay_witness:
  "channel (run initial [ModuleInit (ConnectOk 1 1) None]) = Some 1
   \<and> timers (snd (publishWithResponse \<lparr>uuid = ''c1'', assertQueue_err = None, consume_err = None, publish_err = None, deleteQueue_err = None\<rparr> ''inventory.exchange'' ''inventory.stock.check'' ''{}'' None
        (run initial [ModuleInit (ConnectOk 1 1) None]))) ''c1'' = Some \<lparr>delay = 30000, fate = Armed\<rparr>
   \<and> timers (snd (publishWithResponse \<lparr>uuid = ''c1'', assertQueue_err = None, consume_err = None, publish_err = None, deleteQueue_err = None\<rparr> ''inventory.exchange'' ''inventory.stock.check'' ''{}''
        (Some (Num 1000)) (run initial [ModuleInit (ConnectOk 1 1) None]))) ''c1'' = Some \<lparr>delay = 1000, fate = Armed\<rparr>
   \<and> timers (snd (publishWithResponse \<lparr>uuid = ''c1'', assertQueue_err = None, consume_err = None, publish_err = None, deleteQueue_err = None\<rparr> ''inventory.exchange'' ''inventory.stock.check'' ''{}''
        (Some (Num 0)) (run initial [ModuleInit (ConnectOk 1 1) None]))) ''c1'' = Some \<lparr>delay = 1, fate = Armed\<rparr>"
proof -
  have c: "channel (run initial [ModuleInit (ConnectOk 1 1) None]) = Some 1" by (simp add: eval_defs)
  note t = C9_timer_delay [OF c, where env = "\<lparr>uuid = ''c1'', assertQueue_err = None, consume_err = None, publish_err = None, deleteQueue_err = None\<rparr>"
      and ex = "''inventory.exchange''" and rk = "''inventory.stock.check''" and msg = "''{}''"
      and x = 1000 and v = "Num 0"]
  from t have 1: "timers (snd (publishWithResponse \<lparr>uuid = ''c1'', assertQueue_err = None, consume_err = None, publish_err = None, deleteQueue_err = None\<rparr> ''inventory.exchange'' ''inventory.stock.check'' ''{}'' None
        (run initial [ModuleInit (ConnectOk 1 1) None]))) ''c1'' = Some \<lparr>delay = 30000, fate = Armed\<rparr>"
    by simp
  from t have 2: "timers (snd (publishWithResponse \<lparr>uuid = ''c1'', assertQueue_err = None, consume_err = None, publish_err = None, deleteQueue_err = None\<rparr> ''inventory.exchange'' ''inventory.stock.check'' ''{}''
        (Some (Num 1000)) (run initial [ModuleInit (ConnectOk 1 1) None]))) ''c1'' = Some \<lparr>delay = 1000, fate = Armed\<rparr>"
    by simp
  from t have 3: "timers (snd (publishWithResponse \<lparr>uuid = ''c1'', assertQueue_err = None, consume_err = None, publish_err = None, deleteQueue_err = None\<rparr> ''inventory.exchange'' ''inventory.stock.check'' ''{}''
        (Some (Num 0)) (run initial [ModuleInit (ConnectOk 1 1) None]))) ''c1'' = Some \<lparr>delay = 1, fate = Armed\<rparr>"
    by simp
  show ?thesis by (intro conjI) (rule c 1 2 3)+
qed

text \<open>
  C9 as stated fails: a caller's timeout of 2147483648 ms is not used; the timer is armed
  with 1 ms.
\<close>

theorem C9_counterexample:
  "timers (snd (publishWithResponse \<lparr>uuid = ''c1'', assertQueue_err = None, consume_err = None, publish_err = None, deleteQueue_err = None\<rparr> ''inventory.exchange'' ''inventory.stock.check'' ''{}''
        (Some (Num 2147483648)) (run initial [ModuleInit (ConnectOk 1 1) None]))) ''c1'' = Some \<lparr>delay = 1, fate = Armed\<rparr>"
  by (simp add: eval_defs)

section \<open>Properties of the order service\<close>

lemma inner_catch_ok:
  assumes "update_failed_err env = None" and "orders st oid = Some order"
  shows "fst (inner_catch env oid st) = Inl (HttpException ''Failed to process order'' 500)"
    and "map_option status (orders (snd (inner_catch env oid st)) oid) = Some FAILED"
    and "repo_calls (snd (inner_catch env oid st)) = repo_calls st @ [UpdateOrderStatus oid FAILED]"
  using assms
  by (simp_all add: inner_catch_def outer_catch_def called_def updateOrderStatus_def
      logOrderEvent_def Let_def)

lemma inner_catch_db_down:
  assumes "update_failed_err env = Some e'"
  shows "fst (inner_catch env oid st) = Inl e'"
    and "orders (snd (inner_catch env oid st)) = orders st"
    and "repo_calls (snd (inner_catch env oid st)) = repo_calls st @ [UpdateOrderStatus oid FAILED]"
  using assms
  by (simp_all add: inner_catch_def outer_catch_def called_def logOrderEvent_def Let_def)

lemma createOrder_deduction_fails:
  assumes "stock_check env = Inr r" and "success r" and "availableStock r = Some stock"
    and "save_result env = Inr oid"
    and "deduction env = Inl e \<or> (\<exists>dr. deduction env = Inr dr \<and> \<not> success dr)"
  shows "createOrder env dto st =
     inner_catch env oid
       ((called (CreateOrder PENDING) st)\<lparr>orders := (orders st)(oid \<mapsto>
          \<lparr>productCode = productCode dto, quantity = quantity dto,
           totalPrice = Some (total env), order_id = oid, status = PENDING\<rparr>)\<rparr>)"
  using assms(5)
proof
  assume "deduction env = Inl e"
  with assms(1-4) show ?thesis by (simp add: createOrder_def Let_def called_def)
next
  assume "\<exists>dr. deduction env = Inr dr \<and> \<not> success dr"
  then obtain dr where "deduction env = Inr dr" "\<not> success dr" by blast
  with assms(1-4) show ?thesis by (simp add: createOrder_def Let_def called_def)
qed

subsection \<open>Failed stock deduction in createOrder\<close>

text \<open>
  C10, as the code has it. When the stock check succeeds, the order is saved with status
  \<open>PENDING\<close> and the stock deduction then fails or answers \<open>success = false\<close>,
  \<open>createOrder\<close> asks the repository to set the status to \<open>FAILED\<close> and never to
  \<open>CONFIRMED\<close>. If the repository carries out that update, the order has status
  \<open>FAILED\<close> and the call raises the HTTP 500 error 'Failed to process order'; if the
  repository rejects the update, the call raises the repository's error and the order keeps
  the status \<open>PENDING\<close>.
\<close>

theorem C10_failed_deduction_marks_order_failed:
  assumes "stock_check env = Inr r" and "success r" and "availableStock r = Some stock"
    and "save_result env = Inr oid"
    and "deduction env = Inl e \<or> (\<exists>dr. deduction env = Inr dr \<and> \<not> success dr)"
  shows "(update_failed_err env = None \<longrightarrow>
            fst (createOrder env dto st) = Inl (HttpException ''Failed to process order'' 500)
            \<and> map_option status (orders (snd (createOrder env dto st)) oid) = Some FAILED)
       \<and> (\<forall>e'. update_failed_err env = Some e' \<longrightarrow>
            fst (createOrder env dto st) = Inl e'
            \<and> map_option status (orders (snd (createOrder env dto st)) oid) = Some PENDING)
       \<and> repo_calls (snd (createOrder env dto st))
           = repo_calls st @ [CreateOrder PENDING, UpdateOrderStatus oid FAILED]"
proof -
  let ?order = "\<lparr>productCode = productCode dto, quantity = quantity dto,
           totalPrice = Some (total env), order_id = oid, status = PENDING\<rparr>"
  let ?st2 = "(called (CreateOrder PENDING) st)\<lparr>orders := (orders st)(oid \<mapsto> ?order)\<rparr>"
  have c: "createOrder env dto st = inner_catch env oid ?st2"
    using assms by (rule createOrder_deduction_fails)
  have o: "orders ?st2 oid = Some ?order" by simp
  have rc: "repo_calls ?st2 = repo_calls st @ [CreateOrder PENDING]" by (simp add: called_def)
  have 1: "fst (createOrder env dto st) = Inl (HttpException ''Failed to process order'' 500)
            \<and> map_option status (orders (snd (createOrder env dto st)) oid) = Some FAILED"
    if "update_failed_err env = None"
    unfolding c using inner_catch_ok(1,2) [OF that o] by simp
  have 2: "fst (createOrder env dto st) = Inl e'
            \<and> map_option status (orders (snd (createOrder env dto st)) oid) = Some PENDING"
    if "update_failed_err env = Some e'" for e'
    unfolding c using inner_catch_db_down(1,2) [OF that, of oid ?st2] by simp
  have 3: "repo_calls (snd (createOrder env dto st))
           = repo_calls st @ [CreateOrder PENDING, UpdateOrderStatus oid FAILED]"
  proof (cases "update_failed_err env")
    case None
    show ?thesis unfolding c using inner_catch_ok(3) [OF None o] rc by simp
  next
    case (Some e')
    show ?thesis unfolding c using inner_catch_db_down(3) [OF Some, of oid ?st2] rc by simp
  qed
  from 1 2 3 show ?thesis by blast
qed

text \<open>
  An instance: the deduction answers \<open>success = false\<close> and the repository accepts
  the update.
\<close>

theorem C10_failed_deduction_marks_order_failed_witness:
  "fst (createOrder \<lparr>stock_check = Inr \<lparr>orderId = ''ORDER-0'', success = True, message = None,
        availableStock = Some [''PROD-1'' \<mapsto> Num 100]\<rparr>,
      total = Num 200, save_result = Inr ''ORDER-123'',
      deduction = Inr \<lparr>orderId = ''ORDER-123'', success = False,
        message = Some ''Deduction failed'', availableStock = None\<rparr>,
      update_confirmed_err = None, update_failed_err = None\<rparr> \<lparr>productCode = ''PROD-1'', quantity = Num 2, totalPrice = None\<rparr> \<lparr>orders = Map.empty, repo_calls = [], audit = []\<rparr>) = Inl (HttpException ''Failed to process order'' 500)
   \<and> map_option status (orders (snd (createOrder \<lparr>stock_check = Inr \<lparr>orderId = ''ORDER-0'', success = True, message = None,
        availableStock = Some [''PROD-1'' \<mapsto> Num 100]\<rparr>,
      total = Num 200, save_result = Inr ''ORDER-123'',
      deduction = Inr \<lparr>orderId = ''ORDER-123'', success = False,
        message = Some ''Deduction failed'', availableStock = None\<rparr>,
      update_confirmed_err = None, update_failed_err = None\<rparr> \<lparr>productCode = ''PROD-1'', quantity = Num 2, totalPrice = None\<rparr> \<lparr>orders = Map.empty, repo_calls = [], audit = []\<rparr>)) ''ORDER-123'') = Some FAILED
   \<and> repo_calls (snd (createOrder \<lparr>stock_check = Inr \<lparr>orderId = ''ORDER-0'', success = True, message = None,
        availableStock = Some [''PROD-1'' \<mapsto> Num 100]\<rparr>,
      total = Num 200, save_result = Inr ''ORDER-123'',
      deduction = Inr \<lparr>orderId = ''ORDER-123'', success = False,
        message = Some ''Deduction failed'', availableStock = None\<rparr>,
      update_confirmed_err = None, update_failed_err = None\<rparr> \<lparr>productCode = ''PROD-1'', quantity = Num 2, totalPrice = None\<rparr> \<lparr>orders = Map.empty, repo_calls = [], audit = []\<rparr>))
       = [CreateOrder PENDING, UpdateOrderStatus ''ORDER-123'' FAILED]"
proof -
  let ?r = "\<lparr>orderId = ''ORDER-0'', success = True, message = None,
        availableStock = Some [''PROD-1'' \<mapsto> Num 100]\<rparr>"
  have 1: "stock_check \<lparr>stock_check = Inr \<lparr>orderId = ''ORDER-0'', success = True, message = None,
        availableStock = Some [''PROD-1'' \<mapsto> Num 100]\<rparr>,
      total = Num 200, save_result = Inr ''ORDER-123'',
      deduction = Inr \<lparr>orderId = ''ORDER-123'', success = False,
        message = Some ''Deduction failed'', availableStock = None\<rparr>,
      update_confirmed_err = None, update_failed_err = None\<rparr> = Inr ?r" by simp
  have 2: "success ?r" by simp
  have 3: "availableStock ?r = Some [''PROD-1'' \<mapsto> Num 100]" by simp
  have 4: "save_result \<lparr>stock_check = Inr \<lparr>orderId = ''ORDER-0'', success = True, message = None,
        availableStock = Some [''PROD-1'' \<mapsto> Num 100]\<rparr>,
      total = Num 200, save_result = Inr ''ORDER-123'',
      deduction = Inr \<lparr>orderId = ''ORDER-123'', success = False,
        message = Some ''Deduction failed'', availableStock = None\<rparr>,
      update_confirmed_err = None, update_failed_err = None\<rparr> = Inr ''ORDER-123''" by simp
  have 5: "deduction \<lparr>stock_check = Inr \<lparr>orderId = ''ORDER-0'', success = True, message = None,
        availableStock = Some [''PROD-1'' \<mapsto> Num 100]\<rparr>,
      total = Num 200, save_result = Inr ''ORDER-123'',
      deduction = Inr \<lparr>orderId = ''ORDER-123'', success = False,
        message = Some ''Deduction failed'', availableStock = None\<rparr>,
      update_confirmed_err = None, update_failed_err = None\<rparr> = Inl (Error ''x'')
     \<or> (\<exists>dr. deduction \<lparr>stock_check = Inr \<lparr>orderId = ''ORDER-0'', success = True, message = None,
        availableStock = Some [''PROD-1'' \<mapsto> Num 100]\<rparr>,
      total = Num 200, save_result = Inr ''ORDER-123'',
      deduction = Inr \<lparr>orderId = ''ORDER-123'', success = False,
        message = Some ''Deduction failed'', availableStock = None\<rparr>,
      update_confirmed_err = None, update_failed_err = None\<rparr> = Inr dr \<and> \<not> success dr)" by simp
  have 6: "update_failed_err \<lparr>stock_check = Inr \<lparr>orderId = ''ORDER-0'', success = True, message = None,
        availableStock = Some [''PROD-1'' \<mapsto> Num 100]\<rparr>,
      total = Num 200, save_result = Inr ''ORDER-123'',
      deduction = Inr \<lparr>orderId = ''ORDER-123'', success = False,
        message = Some ''Deduction failed'', availableStock = None\<rparr>,
      update_confirmed_err = None, update_failed_err = None\<rparr> = None" by simp
  note t = C10_failed_deduction_marks_order_failed [OF 1 2 3 4 5, of "\<lparr>productCode = ''PROD-1'', quantity = Num 2, totalPrice = None\<rparr>" "\<lparr>orders = Map.empty, repo_calls = [], audit = []\<rparr>"]
  from t 6 have a: "fst (createOrder \<lparr>stock_check = Inr \<lparr>orderId = ''ORDER-0'', success = True, message = None,
        availableStock = Some [''PROD-1'' \<mapsto> Num 100]\<rparr>,
      total = Num 200, save_result = Inr ''ORDER-123'',
      deduction = Inr \<lparr>orderId = ''ORDER-123'', success = False,
        message = Some ''Deduction failed'', availableStock = None\<rparr>,
      update_confirmed_err = None, update_failed_err = None\<rparr> \<lparr>productCode = ''PROD-1'', quantity = Num 2, totalPrice = None\<rparr> \<lparr>orders = Map.empty, repo_calls = [], audit = []\<rparr>) = Inl (HttpException ''Failed to process order'' 500)
      \<and> map_option status (orders (snd (createOrder \<lparr>stock_check = Inr \<lparr>orderId = ''ORDER-0'', success = True, message = None,
        availableStock = Some [''PROD-1'' \<mapsto> Num 100]\<rparr>,
      total = Num 200, save_result = Inr ''ORDER-123'',
      deduction = Inr \<lparr>orderId = ''ORDER-123'', success = False,
        message = Some ''Deduction failed'', availableStock = None\<rparr>,
      update_confirmed_err = None, update_failed_err = None\<rparr> \<lparr>productCode = ''PROD-1'', quantity = Num 2, totalPrice = None\<rparr> \<lparr>orders = Map.empty, repo_calls = [], audit = []\<rparr>)) ''ORDER-123'') = Some FAILED"
    by blast
  from t have b: "repo_calls (snd (createOrder \<lparr>stock_check = Inr \<lparr>orderId = ''ORDER-0'', success = True, message = None,
        availableStock = Some [''PROD-1'' \<mapsto> Num 100]\<rparr>,
      total = Num 200, save_result = Inr ''ORDER-123'',
      deduction = Inr \<lparr>orderId = ''ORDER-123'', success = False,
        message = Some ''Deduction failed'', availableStock = None\<rparr>,
      update_confirmed_err = None, update_failed_err = None\<rparr> \<lparr>productCode = ''PROD-1'', quantity = Num 2, totalPrice = None\<rparr> \<lparr>orders = Map.empty, repo_calls = [], audit = []\<rparr>))
       = repo_calls \<lparr>orders = Map.empty, repo_calls = [], audit = []\<rparr> @ [CreateOrder PENDING, UpdateOrderStatus ''ORDER-123'' FAILED]"
    by blast
  have "repo_calls \<lparr>orders = Map.empty, repo_calls = [], audit = []\<rparr> = []" by simp
  with a b show ?thesis by simp
qed

text \<open>
  C10 as stated fails: when the repository rejects the update to \<open>FAILED\<close>, the order
  is left with status \<open>PENDING\<close> and the error raised is the repository's, not the
  HTTP 500 error.
\<close>

theorem C10_counterexample:
  "fst (createOrder \<lparr>stock_check = Inr \<lparr>orderId = ''ORDER-0'', success = True, message = None,
        availableStock = Some [''PROD-1'' \<mapsto> Num 100]\<rparr>,
      total = Num 200, save_result = Inr ''ORDER-123'',
      deduction = Inr \<lparr>orderId = ''ORDER-123'', success = False,
        message = Some ''Deduction failed'', availableStock = None\<rparr>,
      update_confirmed_err = None, update_failed_err = Some (Error ''MongoNetworkError'')\<rparr> \<lparr>productCode = ''PROD-1'', quantity = Num 2, totalPrice = None\<rparr> \<lparr>orders = Map.empty, repo_calls = [], audit = []\<rparr>) = Inl (Error ''MongoNetworkError'')
   \<and> map_option status (orders (snd (createOrder \<lparr>stock_check = Inr \<lparr>orderId = ''ORDER-0'', success = True, message = None,
        availableStock = Some [''PROD-1'' \<mapsto> Num 100]\<rparr>,
      total = Num 200, save_result = Inr ''ORDER-123'',
      deduction = Inr \<lparr>orderId = ''ORDER-123'', success = False,
        message = Some ''Deduction failed'', availableStock = None\<rparr>,
      update_confirmed_err = None, update_failed_err = Some (Error ''MongoNetworkError'')\<rparr> \<lparr>productCode = ''PROD-1'', quantity = Num 2, totalPrice = None\<rparr> \<lparr>orders = Map.empty, repo_calls = [], audit = []\<rparr>)) ''ORDER-123'') = Some PENDING"
  by (simp add: createOrder_def inner_catch_def outer_catch_def called_def logOrderEvent_def
      Let_def)

end
